(* ===== verification/Prelude.thy ===== *)
theory Prelude
  imports Main "HOL-Library.Word"
begin

text \<open>
  Shared vocabulary of the development: bytes and byte strings, the big-endian value of a
  byte string, array slices as the Rust code writes them (\<open>buf[lo..hi].copy_from_slice\<close>),
  bytewise exclusive or, and the \<open>named_theorems\<close> collections the component theories fill.
\<close>

unbundle bit_operations_syntax

type_synonym byte = "8 word"
type_synonym bytes = "8 word list"

named_theorems run_simps \<open>how the program's operations run on an environment\<close>
named_theorems wp_simps \<open>weakest preconditions of the program's operations\<close>

subsection \<open>Slices of fixed-size arrays\<close>

text \<open>
  \<open>zeros n\<close> is the array literal \<open>[0u8; n]\<close>; \<open>copy_at lo src buf\<close> is
  \<open>buf[lo..lo + src.len()].copy_from_slice(src)\<close> for a slice that lies inside the array.
\<close>

definition zeros :: "nat \<Rightarrow> bytes" where
  "zeros n = replicate n 0"

definition copy_at :: "nat \<Rightarrow> bytes \<Rightarrow> bytes \<Rightarrow> bytes" where
  "copy_at lo src buf = take lo buf @ src @ drop (lo + length src) buf"

lemma length_zeros [simp]: "length (zeros n) = n"
  by (simp add: zeros_def)

lemma length_copy_at [simp]:
  "lo + length src \<le> length buf \<Longrightarrow> length (copy_at lo src buf) = length buf"
  by (simp add: copy_at_def)

lemma copy_at_full: "length src = length buf \<Longrightarrow> copy_at 0 src buf = src"
  by (simp add: copy_at_def)

text \<open>Filling a zeroed array from left to right leaves the concatenation of the parts.\<close>

lemma copy_at_append:
  "length pre = lo \<Longrightarrow> lo + length src \<le> lo + n \<Longrightarrow>
   copy_at lo src (pre @ zeros n) = pre @ src @ zeros (n - length src)"
  by (simp add: copy_at_def zeros_def)

subsection \<open>Big-endian values\<close>

fun be_val :: "bytes \<Rightarrow> nat" where
  "be_val [] = 0"
| "be_val (b # bs) = unat b * 256 ^ length bs + be_val bs"

lemma be_val_append: "be_val (xs @ ys) = be_val xs * 256 ^ length ys + be_val ys"
  by (induction xs) (auto simp: algebra_simps power_add)

lemma be_val_zeros [simp]: "be_val (zeros n) = 0"
  by (induction n) (auto simp: zeros_def)

lemma unat_byte_less [simp]: "unat (b :: byte) < 256"
  using unsigned_less [of b] by simp

lemma be_val_less: "be_val bs < 256 ^ length bs"
proof (induction bs)
  case (Cons b bs)
  have "unat b * 256 ^ length bs + be_val bs < (unat b + 1) * 256 ^ length bs"
    using Cons by simp
  also have "\<dots> \<le> 256 * 256 ^ length bs"
    using unat_byte_less [of b] by (intro mult_right_mono) linarith+
  finally show ?case by simp
qed simp

text \<open>Byte strings of one length are determined by their value.\<close>

lemma be_val_inj: "length xs = length ys \<Longrightarrow> be_val xs = be_val ys \<Longrightarrow> xs = ys"
proof (induction xs arbitrary: ys)
  case (Cons x xs)
  then obtain y zs where ys: "ys = y # zs" by (cases ys) auto
  with Cons.prems have len: "length xs = length zs" by simp
  let ?n = "256 ^ length xs :: nat"
  have eq: "unat x * ?n + be_val xs = unat y * ?n + be_val zs"
    using Cons.prems(2) ys len by simp
  have lt: "be_val xs < ?n" "be_val zs < ?n"
    using be_val_less [of xs] be_val_less [of zs] len by simp_all
  have "unat x = unat y"
    using arg_cong [OF eq, of "\<lambda>v. v div ?n"] lt by simp
  with eq have "be_val xs = be_val zs" by simp
  with Cons.IH len have "xs = zs" by simp
  with ys \<open>unat x = unat y\<close> show ?case by (simp add: word_unat_eq_iff)
qed simp

subsection \<open>Bytewise exclusive or\<close>

definition xor_bytes :: "bytes \<Rightarrow> bytes \<Rightarrow> bytes" where
  "xor_bytes xs ys = map2 (XOR) xs ys"

lemma length_xor_bytes [simp]: "length (xor_bytes xs ys) = min (length xs) (length ys)"
  by (simp add: xor_bytes_def)

lemma xor_bytes_cancel [simp]:
  "length xs = length ys \<Longrightarrow> xor_bytes (xor_bytes xs ys) ys = xs"
  by (induction xs ys rule: list_induct2) (auto simp: xor_bytes_def xor.assoc)

subsection \<open>Decimal numbers\<close>

text \<open>\<open>to_string\<close> of an unsigned number, and \<open>parse::<u8>\<close>: an optional plus sign, then digits.\<close>

definition digit_char :: "nat \<Rightarrow> char" where
  "digit_char d = char_of (48 + d)"

definition digit_val :: "char \<Rightarrow> nat option" where
  "digit_val c = (let n = of_char c in if 48 \<le> n \<and> n \<le> 57 then Some (n - 48) else None)"

fun to_string :: "nat \<Rightarrow> string" where
  "to_string n = (if n < 10 then [digit_char n] else to_string (n div 10) @ [digit_char (n mod 10)])"

declare to_string.simps [simp del]

fun digits_val :: "nat \<Rightarrow> string \<Rightarrow> nat option" where
  "digits_val acc [] = Some acc"
| "digits_val acc (c # cs) = (case digit_val c of
     None \<Rightarrow> None
   | Some d \<Rightarrow> if 255 < acc * 10 + d then None else digits_val (acc * 10 + d) cs)"

definition parse_u8 :: "string \<Rightarrow> byte option" where
  "parse_u8 s = (case s of
     [] \<Rightarrow> None
   | c # cs \<Rightarrow> map_option of_nat
       (if c = CHR ''+'' \<and> cs \<noteq> [] then digits_val 0 cs else digits_val 0 s))"

lemma digit_val_char: "d < 10 \<Longrightarrow> digit_val (digit_char d) = Some d"
  by (simp add: digit_val_def digit_char_def of_char_of)

lemma digits_val_append:
  "digits_val acc (xs @ ys) = (case digits_val acc xs of None \<Rightarrow> None | Some v \<Rightarrow> digits_val v ys)"
  by (induction xs arbitrary: acc) (auto split: option.splits)

lemma digits_val_to_string: "n \<le> 255 \<Longrightarrow> digits_val 0 (to_string n) = Some n"
proof (induction n rule: to_string.induct)
  case (1 n)
  show ?case
  proof (cases "n < 10")
    case True
    then show ?thesis by (simp add: to_string.simps [of n] digit_val_char)
  next
    case False
    moreover have "digits_val 0 (to_string (n div 10)) = Some (n div 10)"
      using 1 False by simp
    ultimately show ?thesis
      using 1(2) by (simp add: to_string.simps [of n] digits_val_append digit_val_char)
  qed
qed

lemma to_string_head: "\<exists>c cs. to_string n = c # cs \<and> c \<noteq> CHR ''+''"
proof (induction n rule: to_string.induct)
  case (1 n)
  have "digit_char d \<noteq> CHR ''+''" if "d < 10" for d
    using digit_val_char [OF that] by (auto simp: digit_val_def)
  with 1 show ?case
    by (cases "n < 10") (auto simp: to_string.simps [of n])
qed

lemma parse_u8_to_string: "n \<le> 255 \<Longrightarrow> parse_u8 (to_string n) = Some (of_nat n)"
  using to_string_head [of n] digits_val_to_string [of n] by (auto simp: parse_u8_def)

subsection \<open>Lists\<close>

lemma take_length_append: "length xs = n \<Longrightarrow> take n (xs @ ys) = xs"
  by simp

lemma concat_singletons [simp]: "concat (map (\<lambda>x. [x]) xs) = xs"
  by (induction xs) auto

subsection \<open>Signed readings of words\<close>

lemma sint_small: "n < 2 ^ 31 \<Longrightarrow> sint (of_nat n :: 32 word) = int n"
  by (simp add: signed_of_nat signed_take_bit_int_eq_self)

lemma sint_below: "unat (w :: 32 word) < 2 ^ 31 \<Longrightarrow> sint w = int (unat w)"
  using sint_small [of "unat w"] by simp

lemma sint_le_below:
  "unat (v :: 32 word) < 2 ^ 31 \<Longrightarrow> unat (w :: 32 word) < 2 ^ 31 \<Longrightarrow> sint v \<le> sint w \<longleftrightarrow> unat v \<le> unat w"
  by (simp only: sint_below of_nat_le_iff)

end
