(* ===== verification/Process.thy ===== *)
theory Process
  imports Prelude
begin

text \<open>
  How the programs of the repository act. Each binary is sequential code that computes, and
  now and then acts on the world: it writes bytes to a peer, waits for bytes from a peer,
  asks the operating system or the device something, or makes an effect nothing answers.
  A \<open>proc\<close> is the tree of these actions: every node is one action, its continuation takes
  the answer. The operations of the code are translated into definitions of type \<open>proc\<close>;
  \<open>run\<close> executes a tree against an environment (the bytes a peer has sent, the answers the
  system gives) and stops where the code would wait; \<open>pstep\<close> is one action of it.
  Theorems about all environments use the calculus of Monitor, theorems about several
  programs at once the network of Network.
\<close>

subsection \<open>Actions, answers, events\<close>

text \<open>The three machines: the TKey with the client app, the host program, dom0's verify.\<close>

datatype port = Device | Host | Dom0

text \<open>The LED colours of rustkey::led the client uses.\<close>

datatype colour = LED_OFF | LED_GREEN | LED_PURPLE | LED_YELLOW

text \<open>
  What the code asks of libraries, the firmware and the operating system, named after the
  calls. Arguments are those the code passes. \<open>Keystream p n\<close> marks the use of the bytes
  \<open>p ..< p + n\<close> of a session's ChaCha20 keystream.
\<close>

datatype tpm_cmd =
    NewContext string | StartAuthSession | BuildPcrs "nat list" | ToPolicySession
  | PolicyPcr "nat list" | ToHandle "32 word" | TrFromPublic "32 word" | ToMaxBuffer bytes
  | HashSha256 bytes | SetSessions | Sign bytes

datatype tty_op =
    OpenTty string | TermiosFromFd | TcSetAttr | FcntlSetFl | TcGets2 | TcSets2 "32 word" | TryClone

datatype child_op =
    Spawn string "string list" | TakeStdin | TakeStdout | ChildWrite bytes | DropStdin | ChildWait

datatype act =
    Random nat | ReadCdi | Blake2sCall | Led colour | Touch nat colour | SleepSecs nat
  | Zeroize string | Keystream nat nat
  | CreateDirAll string | Status string "string list" | ReadFile string
  | Tty tty_op | Fionread | SleepMillis nat | GetRandom nat
  | Output string "string list" | PromptPassword | ReadLine
  | Child child_op | Tpm tpm_cmd
  | LogCreate string | LogWrite string | Flush port

text \<open>
  Answers: success and failure of a fallible call, a truth value, bytes, a number, an exit
  code (\<open>None\<close> when a signal ended the process), nothing where an \<open>Option\<close> was asked
  for, an ECDSA signature, a signature of another kind.
\<close>

datatype ans =
    AOk | AErr | ABool bool | ABytes bytes | AInt int | ACode "int option"
  | ANone | ASig bytes bytes | AOtherSig

text \<open>
  UTF-8, as \<open>String::from_utf8\<close> checks it: no overlong forms, no surrogates, nothing
  beyond U+10FFFF.
\<close>

definition utf8_tail :: "byte \<Rightarrow> bool" where
  "utf8_tail b \<longleftrightarrow> 0x80 \<le> b \<and> b \<le> 0xBF"

fun utf8_valid :: "bytes \<Rightarrow> bool" where
  "utf8_valid [] = True"
| "utf8_valid (b # bs) =
    (if b \<le> 0x7F then utf8_valid bs
     else if 0xC2 \<le> b \<and> b \<le> 0xDF then
       (case bs of c # cs \<Rightarrow> utf8_tail c \<and> utf8_valid cs | _ \<Rightarrow> False)
     else if 0xE0 \<le> b \<and> b \<le> 0xEF then
       (case bs of c # d # ds \<Rightarrow>
          utf8_tail c \<and> (b = 0xE0 \<longrightarrow> 0xA0 \<le> c) \<and> (b = 0xED \<longrightarrow> c \<le> 0x9F) \<and>
          utf8_tail d \<and> utf8_valid ds | _ \<Rightarrow> False)
     else if 0xF0 \<le> b \<and> b \<le> 0xF4 then
       (case bs of c # d # e # es \<Rightarrow>
          utf8_tail c \<and> (b = 0xF0 \<longrightarrow> 0x90 \<le> c) \<and> (b = 0xF4 \<longrightarrow> c \<le> 0x8F) \<and>
          utf8_tail d \<and> utf8_tail e \<and> utf8_valid es | _ \<Rightarrow> False)
     else False)"

text \<open>
  Which answers a call can have at all: the result type of the call. A run waits at a call
  until an answer of its type arrives.
\<close>

definition plain_call :: "act \<Rightarrow> bool" where
  "plain_call a = (case a of
     Blake2sCall \<Rightarrow> True | CreateDirAll _ \<Rightarrow> True | Tty _ \<Rightarrow> True | ReadLine \<Rightarrow> True
   | Child c \<Rightarrow> (case c of Spawn _ _ \<Rightarrow> True | ChildWrite _ \<Rightarrow> True | _ \<Rightarrow> False)
   | Tpm c \<Rightarrow> (case c of HashSha256 _ \<Rightarrow> False | Sign _ \<Rightarrow> False | _ \<Rightarrow> True)
   | LogCreate _ \<Rightarrow> True | LogWrite _ \<Rightarrow> True | Flush _ \<Rightarrow> True | _ \<Rightarrow> False)"

fun ans_ok :: "act \<Rightarrow> ans \<Rightarrow> bool" where
  "ans_ok a (ABytes b) = (case a of
     Random n \<Rightarrow> length b = n | GetRandom n \<Rightarrow> length b = n | ReadCdi \<Rightarrow> length b = 32
   | ReadFile _ \<Rightarrow> True | Output _ _ \<Rightarrow> True | PromptPassword \<Rightarrow> utf8_valid b
   | Tpm c \<Rightarrow> (case c of HashSha256 _ \<Rightarrow> True | _ \<Rightarrow> False) | _ \<Rightarrow> False)"
| "ans_ok a (ABool _) = (case a of Touch _ _ \<Rightarrow> True | Status _ _ \<Rightarrow> True | _ \<Rightarrow> False)"
| "ans_ok a (AInt n) = (a = Fionread \<and> - (2 ^ 31) \<le> n \<and> n < 2 ^ 31)"
| "ans_ok a (ACode _) = (a = Child ChildWait)"
| "ans_ok a ANone = (a \<in> {Child TakeStdin, Child TakeStdout, Tpm StartAuthSession})"
| "ans_ok a (ASig _ _) = (case a of Tpm (Sign _) \<Rightarrow> True | _ \<Rightarrow> False)"
| "ans_ok a AOtherSig = (case a of Tpm (Sign _) \<Rightarrow> True | _ \<Rightarrow> False)"
| "ans_ok a AOk = (plain_call a \<or> a \<in> {Child TakeStdin, Child TakeStdout})"
| "ans_ok a AErr = (plain_call a \<or> (case a of
     Status _ _ \<Rightarrow> True | ReadFile _ \<Rightarrow> True | Fionread \<Rightarrow> True | GetRandom _ \<Rightarrow> True
   | Output _ _ \<Rightarrow> True | PromptPassword \<Rightarrow> True
   | Child c \<Rightarrow> c = ChildWait
   | Tpm c \<Rightarrow> (case c of HashSha256 _ \<Rightarrow> True | Sign _ \<Rightarrow> True | _ \<Rightarrow> False) | _ \<Rightarrow> False))"

text \<open>The answers of each call, one rule per call.\<close>

lemma ans_ok_iff [simp]:
  "ans_ok (Random m) x \<longleftrightarrow> (\<exists>c. x = ABytes c \<and> length c = m)"
  "ans_ok ReadCdi x \<longleftrightarrow> (\<exists>c. x = ABytes c \<and> length c = 32)"
  "ans_ok (GetRandom m) x \<longleftrightarrow> (\<exists>c. x = ABytes c \<and> length c = m) \<or> x = AErr"
  "ans_ok (Touch m l) x \<longleftrightarrow> (\<exists>t. x = ABool t)"
  "ans_ok (Status d as) x \<longleftrightarrow> (\<exists>t. x = ABool t) \<or> x = AErr"
  "ans_ok Fionread x \<longleftrightarrow> (\<exists>k. x = AInt k \<and> - (2 ^ 31) \<le> k \<and> k < 2 ^ 31) \<or> x = AErr"
  "ans_ok (Child ChildWait) x \<longleftrightarrow> (\<exists>r. x = ACode r) \<or> x = AErr"
  "ans_ok (Child TakeStdin) x \<longleftrightarrow> x = AOk \<or> x = ANone"
  "ans_ok (Child TakeStdout) x \<longleftrightarrow> x = AOk \<or> x = ANone"
  "ans_ok (Tpm StartAuthSession) x \<longleftrightarrow> x = AOk \<or> x = ANone \<or> x = AErr"
  "ans_ok (Tpm (Sign b)) x \<longleftrightarrow> (\<exists>c e. x = ASig c e) \<or> x = AOtherSig \<or> x = AErr"
  "ans_ok Blake2sCall x \<longleftrightarrow> x = AOk \<or> x = AErr"
  "ans_ok (CreateDirAll d) x \<longleftrightarrow> x = AOk \<or> x = AErr"
  "ans_ok (Tty y) x \<longleftrightarrow> x = AOk \<or> x = AErr"
  "ans_ok ReadLine x \<longleftrightarrow> x = AOk \<or> x = AErr"
  "ans_ok (Child (Spawn d as)) x \<longleftrightarrow> x = AOk \<or> x = AErr"
  "ans_ok (Child (ChildWrite b)) x \<longleftrightarrow> x = AOk \<or> x = AErr"
  "ans_ok (LogCreate d) x \<longleftrightarrow> x = AOk \<or> x = AErr"
  "ans_ok (LogWrite d) x \<longleftrightarrow> x = AOk \<or> x = AErr"
  "ans_ok (Flush q) x \<longleftrightarrow> x = AOk \<or> x = AErr"
  "ans_ok (Tpm (NewContext d)) x \<longleftrightarrow> x = AOk \<or> x = AErr"
  "ans_ok (Tpm (BuildPcrs ns)) x \<longleftrightarrow> x = AOk \<or> x = AErr"
  "ans_ok (Tpm ToPolicySession) x \<longleftrightarrow> x = AOk \<or> x = AErr"
  "ans_ok (Tpm (PolicyPcr ns)) x \<longleftrightarrow> x = AOk \<or> x = AErr"
  "ans_ok (Tpm (ToHandle w)) x \<longleftrightarrow> x = AOk \<or> x = AErr"
  "ans_ok (Tpm (TrFromPublic w)) x \<longleftrightarrow> x = AOk \<or> x = AErr"
  "ans_ok (Tpm (ToMaxBuffer b)) x \<longleftrightarrow> x = AOk \<or> x = AErr"
  "ans_ok (ReadFile d) x \<longleftrightarrow> (\<exists>c. x = ABytes c) \<or> x = AErr"
  "ans_ok (Output d as) x \<longleftrightarrow> (\<exists>c. x = ABytes c) \<or> x = AErr"
  "ans_ok (Tpm (HashSha256 b)) x \<longleftrightarrow> (\<exists>c. x = ABytes c) \<or> x = AErr"
  "ans_ok PromptPassword x \<longleftrightarrow> (\<exists>c. x = ABytes c \<and> utf8_valid c) \<or> x = AErr"
  by (cases x; simp add: plain_call_def)+

declare ans_ok.simps [simp del]

datatype event =
    Out port bytes | In port bytes | InFail port | Did act | Got act ans

text \<open>
  How a program stops acting without returning: a host panic, the device's abort and done, a
  device read on a dead line, and the marker of exhausted fuel.
\<close>

datatype halt = Panic | DeviceAbort | DeviceDone | NoInput | OutOfFuel

subsection \<open>Processes and environments\<close>

datatype 'a proc =
    Ret 'a
  | Halt halt
  | Write port bytes "bool \<Rightarrow> 'a proc"
  | Read port nat "bytes option \<Rightarrow> 'a proc"
  | Call act "ans \<Rightarrow> 'a proc"
  | Do act "'a proc"

primrec bnd :: "'a proc \<Rightarrow> ('a \<Rightarrow> 'b proc) \<Rightarrow> 'b proc" where
  "bnd (Ret v) f = f v"
| "bnd (Halt h) f = Halt h"
| "bnd (Write q bs k) f = Write q bs (\<lambda>b. bnd (k b) f)"
| "bnd (Read q n k) f = Read q n (\<lambda>b. bnd (k b) f)"
| "bnd (Call a k) f = Call a (\<lambda>b. bnd (k b) f)"
| "bnd (Do a k) f = Do a (bnd k f)"

lemma bnd_assoc [simp]: "bnd (bnd p f) g = bnd p (\<lambda>x. bnd (f x) g)"
  by (induction p) auto

lemma bnd_Ret [simp]: "bnd p Ret = p"
  by (induction p) auto

text \<open>
  The environment of one program: what has arrived from each peer and not been read, whether
  the line from a peer is closed, how many more writes to a peer succeed (\<open>None\<close>: all of
  them), the answers still to come, and the events so far.
\<close>

record env =
  inbox :: "port \<Rightarrow> bytes"
  eof :: "port \<Rightarrow> bool"
  quota :: "port \<Rightarrow> nat option"
  tape :: "ans list"
  trace :: "event list"

definition emit :: "event \<Rightarrow> env \<Rightarrow> env" where
  "emit e s = s\<lparr>trace := trace s @ [e]\<rparr>"

lemma emit_sel [simp]:
  "inbox (emit e s) = inbox s" "eof (emit e s) = eof s" "quota (emit e s) = quota s"
  "tape (emit e s) = tape s" "trace (emit e s) = trace s @ [e]"
  by (simp_all add: emit_def)

text \<open>
  \<open>start I T\<close>: healthy lines, the bytes \<open>I\<close> from the peers, the answers \<open>T\<close>.
\<close>

definition start :: "(port \<Rightarrow> bytes) \<Rightarrow> ans list \<Rightarrow> env" where
  "start I T = \<lparr>inbox = I, eof = (\<lambda>_. False), quota = (\<lambda>_. None), tape = T, trace = []\<rparr>"

lemma start_sel [simp]:
  "inbox (start I T) = I" "eof (start I T) = (\<lambda>_. False)" "quota (start I T) = (\<lambda>_. None)"
  "tape (start I T) = T" "trace (start I T) = []"
  by (simp_all add: start_def)

subsection \<open>Running a process\<close>

primrec run :: "'a proc \<Rightarrow> env \<Rightarrow> 'a proc \<times> env" where
  "run (Ret v) = (\<lambda>s. (Ret v, s))"
| "run (Halt h) = (\<lambda>s. (Halt h, s))"
| "run (Write q bs k) = (\<lambda>s.
     (case quota s q of
        None \<Rightarrow> run (k True) (emit (Out q bs) s)
      | Some m \<Rightarrow> if m = 0 then run (k False) s
          else run (k True) (emit (Out q bs) (s\<lparr>quota := (quota s)(q := Some (m - 1))\<rparr>))))"
| "run (Read q n k) = (\<lambda>s.
     if n \<le> length (inbox s q)
     then run (k (Some (take n (inbox s q))))
            (emit (In q (take n (inbox s q))) (s\<lparr>inbox := (inbox s)(q := drop n (inbox s q))\<rparr>))
     else if eof s q then run (k None) (emit (InFail q) (s\<lparr>inbox := (inbox s)(q := [])\<rparr>))
     else (Read q n k, s))"
| "run (Call a k) = (\<lambda>s.
     (case tape s of
        [] \<Rightarrow> (Call a k, s)
      | x # xs \<Rightarrow> if ans_ok a x then run (k x) (emit (Got a x) (s\<lparr>tape := xs\<rparr>))
                 else (Call a k, s)))"
| "run (Do a k) = (\<lambda>s. run k (emit (Did a) s))"

text \<open>One action: the next process, the environment, and what was sent to a peer.\<close>

fun pstep :: "'a proc \<times> env \<Rightarrow> ('a proc \<times> env \<times> (port \<times> bytes) option) option" where
  "pstep (Ret v, s) = None"
| "pstep (Halt h, s) = None"
| "pstep (Write q bs k, s) =
     (case quota s q of
        None \<Rightarrow> Some (k True, emit (Out q bs) s, Some (q, bs))
      | Some m \<Rightarrow> if m = 0 then Some (k False, s, None)
          else Some (k True, emit (Out q bs) (s\<lparr>quota := (quota s)(q := Some (m - 1))\<rparr>),
                     Some (q, bs)))"
| "pstep (Read q n k, s) =
     (if n \<le> length (inbox s q)
      then Some (k (Some (take n (inbox s q))),
             emit (In q (take n (inbox s q))) (s\<lparr>inbox := (inbox s)(q := drop n (inbox s q))\<rparr>), None)
      else if eof s q then Some (k None, emit (InFail q) (s\<lparr>inbox := (inbox s)(q := [])\<rparr>), None)
      else None)"
| "pstep (Call a k, s) =
     (case tape s of
        [] \<Rightarrow> None
      | x # xs \<Rightarrow> if ans_ok a x then Some (k x, emit (Got a x) (s\<lparr>tape := xs\<rparr>), None) else None)"
| "pstep (Do a k, s) = Some (k, emit (Did a) s, None)"

lemma run_pstep: "pstep (p, s) = Some (p', s', out) \<Longrightarrow> run p s = run p' s'"
  by (cases p) (auto split: option.splits if_splits list.splits)

lemma run_stuck: "run p s = (p', s') \<Longrightarrow> pstep (p', s') = None"
  by (induction p arbitrary: s) (auto split: option.splits if_splits list.splits)

lemma run_idem: "pstep (p, s) = None \<Longrightarrow> run p s = (p, s)"
  by (cases p) (auto split: option.splits if_splits list.splits)

lemma run_bnd:
  "run (bnd p f) s = (case run p s of (p', s') \<Rightarrow> (case p' of Ret v \<Rightarrow> run (f v) s' | _ \<Rightarrow> (bnd p' f, s')))"
  by (induction p arbitrary: s) (auto split: option.splits list.splits)

lemma run_bnd_Ret: "run p s = (Ret v, s') \<Longrightarrow> run (bnd p f) s = run (f v) s'"
  by (simp add: run_bnd)

text \<open>The trace only grows.\<close>

lemma run_trace_extends: "run p s = (p', s') \<Longrightarrow> \<exists>es. trace s' = trace s @ es"
  by (induction p arbitrary: s)
     (fastforce split: option.splits if_splits list.splits)+

text \<open>What a trace sent to a peer.\<close>

definition sent :: "port \<Rightarrow> event list \<Rightarrow> bytes" where
  "sent q h = concat (map (\<lambda>e. case e of Out p bs \<Rightarrow> if p = q then bs else [] | _ \<Rightarrow> []) h)"

lemma sent_simps [simp]:
  "sent q [] = []" "sent q (g @ h) = sent q g @ sent q h"
  "sent q (e # h) = (case e of Out p bs \<Rightarrow> if p = q then bs else [] | _ \<Rightarrow> []) @ sent q h"
  by (simp_all add: sent_def)

subsection \<open>Primitives of the code\<close>

text \<open>An \<open>io::Error\<close>: from the operating system, or made by \<open>io::Error::new\<close>.\<close>

datatype io_error = OsError | Interrupted string

text \<open>
  \<open>tryq conv m k\<close> is \<open>let x = m?; k x\<close>: an error of \<open>m\<close> is converted with
  \<open>From\<close> (here \<open>conv\<close>) and returned at once.
\<close>

definition tryq :: "('e \<Rightarrow> 'f) \<Rightarrow> ('e + 'a) proc \<Rightarrow> ('a \<Rightarrow> ('f + 'b) proc) \<Rightarrow> ('f + 'b) proc" where
  "tryq conv m k = bnd m (\<lambda>r. case r of Inl e \<Rightarrow> Ret (Inl (conv e)) | Inr x \<Rightarrow> k x)"

definition read_exact :: "port \<Rightarrow> nat \<Rightarrow> (io_error + bytes) proc" where
  "read_exact q n = Read q n (\<lambda>r. Ret (case r of None \<Rightarrow> Inl OsError | Some bs \<Rightarrow> Inr bs))"

definition write_all :: "port \<Rightarrow> bytes \<Rightarrow> (io_error + unit) proc" where
  "write_all q bs = Write q bs (\<lambda>ok. Ret (if ok then Inr () else Inl OsError))"

text \<open>A fallible call of the system or of a library, and one that cannot fail.\<close>

definition sys :: "act \<Rightarrow> (io_error + ans) proc" where
  "sys a = Call a (\<lambda>r. Ret (if r = AErr then Inl OsError else Inr r))"

definition ask :: "act \<Rightarrow> ans proc" where
  "ask a = Call a Ret"

definition effect :: "act \<Rightarrow> unit proc" where
  "effect a = Do a (Ret ())"

fun bytes_of :: "ans \<Rightarrow> bytes" where
  "bytes_of (ABytes b) = b"
| "bytes_of _ = []"

fun bool_of :: "ans \<Rightarrow> bool" where
  "bool_of (ABool b) = b"
| "bool_of _ = False"

fun int_of :: "ans \<Rightarrow> int" where
  "int_of (AInt n) = n"
| "int_of _ = 0"

fun code_of :: "ans \<Rightarrow> int option" where
  "code_of (ACode c) = c"
| "code_of _ = None"

text \<open>
  Only the first argument of a sequential composition is simplified, so that running a
  program by rewriting follows its control flow.
\<close>

lemma bnd_weak_cong [cong]: "m = m' \<Longrightarrow> bnd m f = bnd m' f"
  by simp

lemma tryq_weak_cong [cong]: "m = m' \<Longrightarrow> tryq c m k = tryq c m' k"
  by simp

lemma bnd_tryq [simp]:
  "bnd (tryq c m k) f = bnd m (\<lambda>r. case r of Inl e \<Rightarrow> f (Inl (c e)) | Inr x \<Rightarrow> bnd (k x) f)"
  by (auto simp: tryq_def intro!: arg_cong [of _ _ "bnd m"] split: sum.splits)

lemma run_read_ok [run_simps]:
  "n \<le> length (inbox s q) \<Longrightarrow> run (bnd (read_exact q n) f) s =
   run (f (Inr (take n (inbox s q))))
     (emit (In q (take n (inbox s q))) (s\<lparr>inbox := (inbox s)(q := drop n (inbox s q))\<rparr>))"
  by (simp add: read_exact_def)

lemma run_read_eof [run_simps]:
  "length (inbox s q) < n \<Longrightarrow> eof s q \<Longrightarrow> run (bnd (read_exact q n) f) s =
   run (f (Inl OsError)) (emit (InFail q) (s\<lparr>inbox := (inbox s)(q := [])\<rparr>))"
  by (simp add: read_exact_def)

lemma run_write_ok [run_simps]:
  "quota s q = None \<Longrightarrow> run (bnd (write_all q bs) f) s = run (f (Inr ())) (emit (Out q bs) s)"
  by (simp add: write_all_def)

lemma run_write_err [run_simps]:
  "quota s q = Some 0 \<Longrightarrow> run (bnd (write_all q bs) f) s = run (f (Inl OsError)) s"
  by (simp add: write_all_def)

lemma run_sys [run_simps]:
  "tape s \<noteq> [] \<Longrightarrow> ans_ok a (hd (tape s)) \<Longrightarrow> run (bnd (sys a) f) s =
   run (f (if hd (tape s) = AErr then Inl OsError else Inr (hd (tape s))))
     (emit (Got a (hd (tape s))) (s\<lparr>tape := tl (tape s)\<rparr>))"
  by (cases "tape s") (simp_all add: sys_def)

lemma run_ask [run_simps]:
  "tape s \<noteq> [] \<Longrightarrow> ans_ok a (hd (tape s)) \<Longrightarrow> run (bnd (ask a) f) s =
   run (f (hd (tape s))) (emit (Got a (hd (tape s))) (s\<lparr>tape := tl (tape s)\<rparr>))"
  by (cases "tape s") (simp_all add: ask_def)

lemma run_effect [run_simps]: "run (bnd (effect a) f) s = run (f ()) (emit (Did a) s)"
  by (simp add: effect_def)

lemma run_tryq [run_simps]:
  "run (tryq c m k) s = run (bnd m (\<lambda>r. case r of Inl e \<Rightarrow> Ret (Inl (c e)) | Inr x \<Rightarrow> k x)) s"
  by (simp add: tryq_def)

end
