(* ===== verification/Wire.thy ===== *)
theory Wire
  imports Process
begin

text \<open>
  The one-byte messages between the TKey and the host, and between qubes_enroll and dom0's
  verify: the enums of client/src/main.rs and host/src/lib.rs with their discriminants
  (\<open>as u8\<close>), the decoders \<open>TryFrom<u8>\<close>, the conversions \<open>From\<close> and the messages of
  \<open>Display\<close>. The two crates declare their enums separately, so both are here; the
  locale \<open>codec\<close> states what one side needs of the other.
\<close>

subsection \<open>The device's enums (client/src/main.rs)\<close>

datatype dev_host_message =
  Dev_DecryptionSuccess | Dev_DecryptionError | Dev_TpmSigned | Dev_TpmRefusedToSign_msg

fun dev_host_message_u8 :: "dev_host_message \<Rightarrow> byte" where
  "dev_host_message_u8 Dev_DecryptionSuccess = 0x99"
| "dev_host_message_u8 Dev_DecryptionError = 0x98"
| "dev_host_message_u8 Dev_TpmSigned = 0x97"
| "dev_host_message_u8 Dev_TpmRefusedToSign_msg = 0x90"

datatype dev_message = Dev_GoodSig | Dev_GoodPass | Dev_Ready4pass

fun dev_message_u8 :: "dev_message \<Rightarrow> byte" where
  "dev_message_u8 Dev_GoodSig = 0x20"
| "dev_message_u8 Dev_GoodPass = 0x21"
| "dev_message_u8 Dev_Ready4pass = 0x22"

text \<open>The last two carry no discriminant: each is one more than the variant before it.\<close>

datatype dev_error =
    Dev_Blake2 | Dev_PassLen | Dev_MalformedSig | Dev_InvalidSig | Dev_BadPubkey
  | Dev_IOError | Dev_ChaChaInit | Dev_UnknownError | Dev_TpmRefusedToSign

fun dev_error_u8 :: "dev_error \<Rightarrow> byte" where
  "dev_error_u8 Dev_Blake2 = 0x10"
| "dev_error_u8 Dev_PassLen = 0x11"
| "dev_error_u8 Dev_MalformedSig = 0x12"
| "dev_error_u8 Dev_InvalidSig = 0x13"
| "dev_error_u8 Dev_BadPubkey = 0x14"
| "dev_error_u8 Dev_IOError = 0x15"
| "dev_error_u8 Dev_ChaChaInit = 0x16"
| "dev_error_u8 Dev_UnknownError = 0x16 + 1"
| "dev_error_u8 Dev_TpmRefusedToSign = 0x16 + 2"

subsection \<open>The host's enums (host/src/lib.rs)\<close>

datatype client_message = GoodSig | GoodPass | Ready4pass

fun client_message_u8 :: "client_message \<Rightarrow> byte" where
  "client_message_u8 GoodSig = 0x20"
| "client_message_u8 GoodPass = 0x21"
| "client_message_u8 Ready4pass = 0x22"

datatype host_err =
    CryptsetupErr | CryptsetupKilled | PipeError | HostIOError | TpmError | HostUnknownError
  | TpmRefusedToSign | DecryptionError | StringParseError

text \<open>The first six count from 0; \<open>StringParseError\<close> follows \<open>DecryptionError\<close>.\<close>

fun host_err_u8 :: "host_err \<Rightarrow> byte" where
  "host_err_u8 CryptsetupErr = 0"
| "host_err_u8 CryptsetupKilled = 1"
| "host_err_u8 PipeError = 2"
| "host_err_u8 HostIOError = 3"
| "host_err_u8 TpmError = 4"
| "host_err_u8 HostUnknownError = 5"
| "host_err_u8 TpmRefusedToSign = 0x90"
| "host_err_u8 DecryptionError = 0x98"
| "host_err_u8 StringParseError = 0x98 + 1"

datatype host_message = DecryptionSuccess | TpmSigned

fun host_message_u8 :: "host_message \<Rightarrow> byte" where
  "host_message_u8 DecryptionSuccess = 0x99"
| "host_message_u8 TpmSigned = 0x97"

definition host_message_try_from :: "byte \<Rightarrow> host_err + host_message" where
  "host_message_try_from value =
    (if value = 0x99 then Inr DecryptionSuccess
     else if value = 0x97 then Inr TpmSigned
     else if value = 0x98 then Inl DecryptionError
     else if value = 0x90 then Inl TpmRefusedToSign
     else Inl HostUnknownError)"

datatype client_error =
    Blake2 | PassLen | MalformedSig | InvalidSig | BadPubkey | ClientIOError io_error
  | OutOfsync | ClientUnknownError

definition client_message_try_from :: "byte \<Rightarrow> client_error + client_message" where
  "client_message_try_from value =
    (if value = 0x20 then Inr GoodSig
     else if value = 0x21 then Inr GoodPass
     else if value = 0x22 then Inr Ready4pass
     else if value = 0x10 then Inl Blake2
     else if value = 0x11 then Inl PassLen
     else if value = 0x12 then Inl MalformedSig
     else if value = 0x13 then Inl InvalidSig
     else if value = 0x14 then Inl BadPubkey
     else if value = 0x15 then Inl (ClientIOError (Interrupted ''tkey couldn't communicate''))
     else Inl ClientUnknownError)"

text \<open>\<open>impl From<std::io::Error>\<close> for both error types.\<close>

definition host_err_from_io :: "io_error \<Rightarrow> host_err" where
  "host_err_from_io value = HostIOError"

definition client_error_from_io :: "io_error \<Rightarrow> client_error" where
  "client_error_from_io value = ClientIOError value"

text \<open>
  \<open>Box<dyn Error>\<close>: what the programs put into it. \<open>BoxLib\<close> is an error type of the named
  crate.
\<close>

datatype box_error =
  BoxHost host_err | BoxClient client_error | BoxStr string | BoxIo io_error | BoxLib string

datatype exit_code = Success | Failure

subsection \<open>Messages (Display)\<close>

fun host_err_fmt :: "host_err \<Rightarrow> string" where
  "host_err_fmt CryptsetupErr = ''cryptsetup sent an error''"
| "host_err_fmt PipeError = ''failed to write or create pipe''"
| "host_err_fmt HostIOError = ''failed to fetch keyfile from tkey''"
| "host_err_fmt CryptsetupKilled = ''cryptsetup was killed..''"
| "host_err_fmt TpmError = ''tpm sent malformed sig''"
| "host_err_fmt TpmRefusedToSign = ''tpm REFUSED to sign this system is unsuccessful_auth''"
| "host_err_fmt HostUnknownError =
     ''unknown error found this is a bug please open a github issue to report it.''"
| "host_err_fmt DecryptionError = ''couldn't decrypt passphrase is wrong.''"
| "host_err_fmt StringParseError =
     ''couldn't parse string correctly, qrexec stream was corrupted?''"

text \<open>The text of an \<open>io::Error\<close> is the standard library's (\<open>io_fmt\<close>).\<close>

fun client_error_fmt :: "(io_error \<Rightarrow> string) \<Rightarrow> client_error \<Rightarrow> string" where
  "client_error_fmt io_fmt Blake2 = ''blake2 hashing error..''"
| "client_error_fmt io_fmt PassLen = ''your password is too short try again..''"
| "client_error_fmt io_fmt MalformedSig = ''signature couldn't be imported''"
| "client_error_fmt io_fmt InvalidSig = ''signature is invalid.''"
| "client_error_fmt io_fmt BadPubkey =
     ''public key couldnt be imported something must've went wrong on the build process.''"
| "client_error_fmt io_fmt (ClientIOError e) = ''IO error: '' @ io_fmt e"
| "client_error_fmt io_fmt ClientUnknownError = ''tkey sent invalid error message.''"
| "client_error_fmt io_fmt OutOfsync = ''host and tkey are out of sync, restart app.''"

text \<open>Texts of the errors of other crates are theirs (\<open>lib_fmt\<close>).\<close>

fun box_error_fmt :: "(io_error \<Rightarrow> string) \<Rightarrow> (string \<Rightarrow> string) \<Rightarrow> box_error \<Rightarrow> string" where
  "box_error_fmt io_fmt lib_fmt (BoxHost e) = host_err_fmt e"
| "box_error_fmt io_fmt lib_fmt (BoxClient e) = client_error_fmt io_fmt e"
| "box_error_fmt io_fmt lib_fmt (BoxStr s) = s"
| "box_error_fmt io_fmt lib_fmt (BoxIo e) = io_fmt e"
| "box_error_fmt io_fmt lib_fmt (BoxLib n) = lib_fmt n"

subsection \<open>The contract of a message code\<close>

text \<open>
  A sender that writes \<open>enc m\<close> and a receiver that decodes with \<open>dec\<close>: decoding gives
  back what was sent, and nothing else decodes to a message.
\<close>

locale codec =
  fixes enc :: "'m \<Rightarrow> byte" and dec :: "byte \<Rightarrow> 'e + 'm"
  assumes dec_enc: "dec (enc m) = Inr m"
    and dec_sound: "dec b = Inr m \<Longrightarrow> enc m = b"
begin

lemma enc_inj: "enc m = enc n \<Longrightarrow> m = n"
  by (metis dec_enc sum.inject(2))

lemma dec_iff: "dec b = Inr m \<longleftrightarrow> b = enc m"
  using dec_enc dec_sound by auto

lemma not_enc_iff: "(\<exists>e. dec b = Inl e) \<longleftrightarrow> b \<notin> range enc"
  using dec_iff by (cases "dec b") (auto simp: dec_enc)

end

text \<open>A link: the sender uses its own declaration of the enum, \<open>sent\<close>, meaning \<open>means\<close>.\<close>

locale link = codec +
  fixes sent :: "'d \<Rightarrow> byte" and means :: "'d \<Rightarrow> 'm"
  assumes sent_means: "sent d = enc (means d)"
begin

lemma received: "dec (sent d) = Inr (means d)"
  by (simp add: sent_means dec_enc)

lemma received_only: "dec b = Inr m \<Longrightarrow> b = sent d \<Longrightarrow> m = means d"
  by (simp add: received)

end

fun dev_message_means :: "dev_message \<Rightarrow> client_message" where
  "dev_message_means Dev_GoodSig = GoodSig"
| "dev_message_means Dev_GoodPass = GoodPass"
| "dev_message_means Dev_Ready4pass = Ready4pass"

interpretation client_link: link client_message_u8 client_message_try_from
    dev_message_u8 dev_message_means
proof unfold_locales
  show "client_message_try_from (client_message_u8 m) = Inr m" for m
    by (cases m) (simp_all add: client_message_try_from_def)
  show "client_message_u8 m = b" if "client_message_try_from b = Inr m" for b m
    using that by (auto simp: client_message_try_from_def split: if_splits)
  show "dev_message_u8 d = client_message_u8 (dev_message_means d)" for d
    by (cases d) simp_all
qed

interpretation host_codec: codec host_message_u8 host_message_try_from
proof unfold_locales
  show "host_message_try_from (host_message_u8 m) = Inr m" for m
    by (cases m) (simp_all add: host_message_try_from_def)
  show "host_message_u8 m = b" if "host_message_try_from b = Inr m" for b m
    using that by (auto simp: host_message_try_from_def split: if_splits)
qed

text \<open>Which errors of the device the host recognises.\<close>

fun dev_error_means :: "dev_error \<Rightarrow> client_error" where
  "dev_error_means Dev_Blake2 = Blake2"
| "dev_error_means Dev_PassLen = PassLen"
| "dev_error_means Dev_MalformedSig = MalformedSig"
| "dev_error_means Dev_InvalidSig = InvalidSig"
| "dev_error_means Dev_BadPubkey = BadPubkey"
| "dev_error_means Dev_IOError = ClientIOError (Interrupted ''tkey couldn't communicate'')"
| "dev_error_means _ = ClientUnknownError"

lemma dev_error_received: "client_message_try_from (dev_error_u8 e) = Inl (dev_error_means e)"
  by (cases e) (simp_all add: client_message_try_from_def)

text \<open>
  Property C27. Every status byte the device can send (a message or an error of its own
  enums) is read by the host as the variant of the same name; the device's messages are never
  read as errors nor its errors as messages. The three variants the host has no code for
  (ChaChaInit, UnknownError, TpmRefusedToSign) are read as UnknownError.
\<close>

theorem device_status_decoded:
  "client_message_try_from (dev_message_u8 m) = Inr (dev_message_means m)
   \<and> client_message_try_from (dev_error_u8 e) = Inl (dev_error_means e)
   \<and> dev_message_u8 m \<noteq> dev_error_u8 e
   \<and> (client_message_try_from b = Inr (dev_message_means m) \<longleftrightarrow> b = dev_message_u8 m)"
proof (intro conjI)
  show "dev_message_u8 m \<noteq> dev_error_u8 e"
    using client_link.received [of m] dev_error_received [of e] by auto
  show "client_message_try_from b = Inr (dev_message_means m) \<longleftrightarrow> b = dev_message_u8 m"
    by (simp add: client_link.dec_iff client_link.sent_means)
qed (rule client_link.received, rule dev_error_received)

text \<open>
  Property C39. The status bytes of dom0's verify are read back by qubes_enroll as what they
  were written for: a host message as itself, TpmRefusedToSign and DecryptionError as the
  errors of that name. Of all error discriminants exactly one collides with a message:
  StringParseError, which has no discriminant of its own, is 0x99 as DecryptionSuccess is, so
  sending it as a byte would be read as success.
\<close>

theorem host_status_decoded:
  "host_message_try_from (host_message_u8 m) = Inr m
   \<and> host_message_try_from (host_err_u8 TpmRefusedToSign) = Inl TpmRefusedToSign
   \<and> host_message_try_from (host_err_u8 DecryptionError) = Inl DecryptionError
   \<and> (host_err_u8 e = host_message_u8 m \<longleftrightarrow> e = StringParseError \<and> m = DecryptionSuccess)"
proof (intro conjI)
  show "host_err_u8 e = host_message_u8 m \<longleftrightarrow> e = StringParseError \<and> m = DecryptionSuccess"
    by (cases e; cases m) simp_all
qed (rule host_codec.dec_enc, simp_all add: host_message_try_from_def)

end
