(* ===== verification/Monitor.thy ===== *)
theory Monitor
  imports Process
begin

text \<open>
  Safety of a process against every environment. A monitor is a partial automaton over
  events: \<open>M q e = None\<close> says that event \<open>e\<close> must not happen in state \<open>q\<close>.
  \<open>wp M H p Q q\<close> says: from monitor state \<open>q\<close>, no run of \<open>p\<close> makes an event the
  monitor rejects, whatever the peers send and the system answers; if \<open>p\<close> returns \<open>v\<close>
  in monitor state \<open>q'\<close> then \<open>Q v q'\<close>, and if it halts then \<open>H h q'\<close>.
  \<open>wp_sound\<close> connects this to \<open>run\<close>; the locale \<open>certified\<close> packages the result for
  a whole program. \<open>wps\<close> is the same for a program whose writes do not fail.
\<close>

primrec mfold :: "('q \<Rightarrow> event \<Rightarrow> 'q option) \<Rightarrow> 'q \<Rightarrow> event list \<Rightarrow> 'q option" where
  "mfold M q [] = Some q"
| "mfold M q (e # es) = (case M q e of None \<Rightarrow> None | Some q' \<Rightarrow> mfold M q' es)"

lemma mfold_append:
  "mfold M q (xs @ ys) = (case mfold M q xs of None \<Rightarrow> None | Some q' \<Rightarrow> mfold M q' ys)"
  by (induction xs arbitrary: q) (auto split: option.splits)

lemma mfold_prefix: "mfold M q (xs @ ys) = Some q' \<Longrightarrow> \<exists>r. mfold M q xs = Some r"
  by (auto simp: mfold_append split: option.splits)

definition allows :: "('q \<Rightarrow> event \<Rightarrow> 'q option) \<Rightarrow> 'q \<Rightarrow> event \<Rightarrow> ('q \<Rightarrow> bool) \<Rightarrow> bool" where
  "allows M q e P \<longleftrightarrow> (\<exists>q'. M q e = Some q' \<and> P q')"

lemma allows_iff:
  "allows M q e P \<longleftrightarrow> (case M q e of None \<Rightarrow> False | Some q' \<Rightarrow> P q')"
  by (auto simp: allows_def split: option.splits)

lemma allows_mono: "allows M q e P \<Longrightarrow> (\<And>q'. P q' \<Longrightarrow> R q') \<Longrightarrow> allows M q e R"
  by (auto simp: allows_iff split: option.splits)

primrec wp :: "('q \<Rightarrow> event \<Rightarrow> 'q option) \<Rightarrow> (halt \<Rightarrow> 'q \<Rightarrow> bool) \<Rightarrow> 'a proc \<Rightarrow>
    ('a \<Rightarrow> 'q \<Rightarrow> bool) \<Rightarrow> 'q \<Rightarrow> bool" where
  "wp M H (Ret v) = (\<lambda>Q q. Q v q)"
| "wp M H (Halt h) = (\<lambda>Q q. H h q)"
| "wp M H (Write p bs k) = (\<lambda>Q q.
     allows M q (Out p bs) (wp M H (k True) Q) \<and> wp M H (k False) Q q)"
| "wp M H (Read p n k) = (\<lambda>Q q.
     (\<forall>bs. length bs = n \<longrightarrow> allows M q (In p bs) (wp M H (k (Some bs)) Q)) \<and>
     allows M q (InFail p) (wp M H (k None) Q))"
| "wp M H (Call a k) = (\<lambda>Q q.
     \<forall>x. ans_ok a x \<longrightarrow> allows M q (Got a x) (wp M H (k x) Q))"
| "wp M H (Do a k) = (\<lambda>Q q. allows M q (Did a) (wp M H k Q))"

declare wp.simps(3-6) [simp del]

lemmas wp_unfold = wp.simps allows_iff

lemma wp_bnd [wp_simps]:
  "wp M H (bnd p f) Q q = wp M H p (\<lambda>v. wp M H (f v) Q) q"
  by (induction p arbitrary: q) (auto simp: wp_unfold split: option.splits)

lemma wp_mono:
  "wp M H p Q q \<Longrightarrow> (\<And>v q'. Q v q' \<Longrightarrow> R v q') \<Longrightarrow> wp M H p R q"
  by (induction p arbitrary: q) (auto simp: wp_unfold split: option.splits)

text \<open>One action keeps the precondition, in the monitor state its event leads to.\<close>

lemma wp_pstep:
  assumes "wp M H p Q q" "pstep (p, s) = Some (p', s', out)"
  shows "\<exists>es q'. trace s' = trace s @ es \<and> mfold M q es = Some q' \<and> wp M H p' Q q'"
  using assms
proof (cases p)
  case (Write r bs k)
  with assms show ?thesis
    by (auto simp: wp_unfold split: option.splits if_splits intro: exI [of _ "[]"])
next
  case (Read r n k)
  with assms show ?thesis
    by (fastforce simp: wp_unfold split: option.splits if_splits)
next
  case (Call a k)
  with assms show ?thesis
    by (fastforce simp: wp_unfold split: option.splits if_splits list.splits)
next
  case (Do a k)
  with assms show ?thesis
    by (auto simp: wp_unfold split: option.splits)
qed auto

lemma wp_sound_step:
  assumes "wp M H p Q q" "run p s = (p', s')"
    and "\<And>p1 s1 out q1. pstep (p, s) = Some (p1, s1, out) \<Longrightarrow> wp M H p1 Q q1 \<Longrightarrow> run p1 s1 = (p', s') \<Longrightarrow>
      \<exists>es q'. trace s' = trace s1 @ es \<and> mfold M q1 es = Some q' \<and> wp M H p' Q q'"
  shows "\<exists>es q'. trace s' = trace s @ es \<and> mfold M q es = Some q' \<and> wp M H p' Q q'"
proof (cases "pstep (p, s)")
  case None
  with assms(1,2) show ?thesis by (auto dest: run_idem intro: exI [of _ "[]"])
next
  case (Some t)
  obtain p1 s1 out where t: "t = (p1, s1, out)" by (cases t)
  from wp_pstep [OF assms(1) Some [unfolded t]] obtain es1 q1 where
    1: "trace s1 = trace s @ es1" "mfold M q es1 = Some q1" "wp M H p1 Q q1" by blast
  have "run p1 s1 = (p', s')" using assms(2) run_pstep [OF Some [unfolded t]] by simp
  from assms(3) [OF Some [unfolded t] 1(3) this] obtain es2 q' where
    "trace s' = trace s1 @ es2" "mfold M q1 es2 = Some q'" "wp M H p' Q q'" by blast
  with 1 show ?thesis
    by (intro exI [of _ "es1 @ es2"] exI [of _ q']) (simp add: mfold_append)
qed

lemma wp_sound:
  "wp M H p Q q \<Longrightarrow> run p s = (p', s') \<Longrightarrow>
   \<exists>es q'. trace s' = trace s @ es \<and> mfold M q es = Some q' \<and> wp M H p' Q q'"
proof (induction p arbitrary: q s)
  case (Write r bs k)
  show ?case
    by (rule wp_sound_step [OF Write.prems], rule Write.IH)
       (auto split: option.splits if_splits)
next
  case (Read r n k)
  show ?case
    by (rule wp_sound_step [OF Read.prems], rule Read.IH)
       (auto split: option.splits if_splits)
next
  case (Call a k)
  show ?case
    by (rule wp_sound_step [OF Call.prems], rule Call.IH)
       (auto split: option.splits if_splits list.splits)
next
  case (Do a k)
  show ?case
    by (rule wp_sound_step [OF Do.prems], rule Do.IH) auto
qed (auto intro: exI [of _ "[]"])

subsection \<open>Preconditions of the primitives\<close>

lemma wp_tryq [wp_simps]:
  "wp M H (tryq c m k) Q q =
   wp M H m (\<lambda>r. case r of Inl e \<Rightarrow> Q (Inl (c e)) | Inr x \<Rightarrow> wp M H (k x) Q) q"
  by (auto simp: tryq_def wp_bnd intro!: arg_cong [of _ _ "\<lambda>R. wp M H m R q"] split: sum.splits)

text \<open>Sequencing with an intermediate assertion.\<close>

lemma wp_bndI:
  "wp M H m R q \<Longrightarrow> (\<And>v q'. R v q' \<Longrightarrow> wp M H (f v) Q q') \<Longrightarrow> wp M H (bnd m f) Q q"
  unfolding wp_bnd by (rule wp_mono)

lemma wp_tryqI:
  "wp M H m R q \<Longrightarrow> (\<And>e q'. R (Inl e) q' \<Longrightarrow> Q (Inl (c e)) q') \<Longrightarrow>
   (\<And>x q'. R (Inr x) q' \<Longrightarrow> wp M H (k x) Q q') \<Longrightarrow> wp M H (tryq c m k) Q q"
  unfolding wp_tryq by (erule wp_mono) (auto split: sum.split)

lemma wp_read_exact [wp_simps]:
  "wp M H (read_exact p n) Q q \<longleftrightarrow>
   (\<forall>bs. length bs = n \<longrightarrow> allows M q (In p bs) (Q (Inr bs))) \<and>
   allows M q (InFail p) (Q (Inl OsError))"
  by (auto simp: read_exact_def wp.simps)

lemma wp_write_all [wp_simps]:
  "wp M H (write_all p bs) Q q \<longleftrightarrow> allows M q (Out p bs) (Q (Inr ())) \<and> Q (Inl OsError) q"
  by (auto simp: write_all_def wp.simps)

lemma wp_sys [wp_simps]:
  "wp M H (sys a) Q q \<longleftrightarrow>
   (\<forall>x. ans_ok a x \<longrightarrow> allows M q (Got a x) (Q (if x = AErr then Inl OsError else Inr x)))"
  by (simp add: sys_def wp.simps)

lemma wp_ask [wp_simps]:
  "wp M H (ask a) Q q \<longleftrightarrow> (\<forall>x. ans_ok a x \<longrightarrow> allows M q (Got a x) (Q x))"
  by (simp add: ask_def wp.simps)

lemma wp_effect [wp_simps]: "wp M H (effect a) Q q \<longleftrightarrow> allows M q (Did a) (Q ())"
  by (simp add: effect_def wp.simps)

subsection \<open>Lines that do not fail\<close>

text \<open>
  The same preconditions for a program whose writes always succeed, as those of the TKey to its
  serial line do, which have no error. They hold for environments without a bound on what can
  be written.
\<close>

definition writable :: "env \<Rightarrow> bool" where
  "writable s \<longleftrightarrow> quota s = (\<lambda>_. None)"

primrec wps :: "('q \<Rightarrow> event \<Rightarrow> 'q option) \<Rightarrow> 'a proc \<Rightarrow> ('a \<Rightarrow> 'q \<Rightarrow> bool) \<Rightarrow> 'q \<Rightarrow> bool" where
  "wps M (Ret v) = (\<lambda>Q q. Q v q)"
| "wps M (Halt h) = (\<lambda>Q q. True)"
| "wps M (Write p bs k) = (\<lambda>Q q. allows M q (Out p bs) (wps M (k True) Q))"
| "wps M (Read p n k) = (\<lambda>Q q.
     (\<forall>bs. length bs = n \<longrightarrow> allows M q (In p bs) (wps M (k (Some bs)) Q)) \<and>
     allows M q (InFail p) (wps M (k None) Q))"
| "wps M (Call a k) = (\<lambda>Q q. \<forall>x. ans_ok a x \<longrightarrow> allows M q (Got a x) (wps M (k x) Q))"
| "wps M (Do a k) = (\<lambda>Q q. allows M q (Did a) (wps M k Q))"

declare wps.simps(3-6) [simp del]

named_theorems wps_simps \<open>preconditions of the primitives when writes do not fail\<close>

lemma wps_bnd [wps_simps]: "wps M (bnd p f) Q q = wps M p (\<lambda>v. wps M (f v) Q) q"
  by (induction p arbitrary: q) (auto simp: wps.simps allows_iff split: option.splits)

lemma wps_mono: "wps M p Q q \<Longrightarrow> (\<And>v q'. Q v q' \<Longrightarrow> R v q') \<Longrightarrow> wps M p R q"
  by (induction p arbitrary: q) (auto simp: wps.simps allows_iff split: option.splits)

lemma wps_bndI: "wps M m R q \<Longrightarrow> (\<And>v q'. R v q' \<Longrightarrow> wps M (f v) Q q') \<Longrightarrow> wps M (bnd m f) Q q"
  unfolding wps_bnd by (rule wps_mono)

lemma writable_upd [simp]:
  "writable (emit e s) = writable s" "writable (s\<lparr>inbox := i\<rparr>) = writable s" "writable (s\<lparr>tape := t\<rparr>) = writable s"
  by (simp_all add: writable_def emit_def)

lemma wps_after:
  assumes "allows M q e R" "trace after = trace s @ [e]"
    and "\<And>q1. R q1 \<Longrightarrow> \<exists>es q'. trace s' = trace after @ es \<and> mfold M q1 es = Some q' \<and> P q'"
  shows "\<exists>es q'. trace s' = trace s @ es \<and> mfold M q es = Some q' \<and> P q'"
proof -
  from assms(1) obtain q1 where q1: "M q e = Some q1" "R q1" by (auto simp: allows_def)
  from assms(3) [OF q1(2)] obtain es q' where "trace s' = trace after @ es" "mfold M q1 es = Some q'" "P q'" by blast
  with q1(1) assms(2) show ?thesis by (intro exI [of _ "e # es"] exI [of _ q']) simp
qed

lemma wps_sound:
  "wps M p Q q \<Longrightarrow> writable s \<Longrightarrow> run p s = (p', s') \<Longrightarrow>
   \<exists>es q'. trace s' = trace s @ es \<and> mfold M q es = Some q' \<and> wps M p' Q q'"
proof (induction p arbitrary: q s)
  case (Write r bs k)
  have run: "run (k True) (emit (Out r bs) s) = (p', s')" using Write.prems(2,3) by (simp add: writable_def)
  show ?case
    by (rule wps_after [OF Write.prems(1) [unfolded wps.simps], where s = s and after = "emit (Out r bs) s"])
      (use Write.IH [OF rangeI _ _ run] Write.prems(2) in simp_all)
next
  case (Read r n k)
  show ?case
  proof (cases "n \<le> length (inbox s r)")
    case True
    let ?bs = "take n (inbox s r)"
    let ?s = "emit (In r ?bs) (s\<lparr>inbox := (inbox s)(r := drop n (inbox s r))\<rparr>)"
    have run: "run (k (Some ?bs)) ?s = (p', s')" and a: "allows M q (In r ?bs) (wps M (k (Some ?bs)) Q)"
      using Read.prems True by (simp_all add: wps.simps)
    show ?thesis
      by (rule wps_after [OF a, where s = s and after = ?s]) (use Read.IH [OF rangeI _ _ run] Read.prems(2) in simp_all)
  next
    case False
    show ?thesis
    proof (cases "eof s r")
      case True
      let ?s = "emit (InFail r) (s\<lparr>inbox := (inbox s)(r := [])\<rparr>)"
      have run: "run (k None) ?s = (p', s')" and a: "allows M q (InFail r) (wps M (k None) Q)"
        using Read.prems False True by (simp_all add: wps.simps)
      show ?thesis
        by (rule wps_after [OF a, where s = s and after = ?s]) (use Read.IH [OF rangeI _ _ run] Read.prems(2) in simp_all)
    qed (use Read.prems False in \<open>auto intro: exI [of _ "[]"]\<close>)
  qed
next
  case (Call a k)
  show ?case
  proof (cases "\<exists>x xs. tape s = x # xs \<and> ans_ok a x")
    case True
    then obtain x xs where x: "tape s = x # xs" "ans_ok a x" by blast
    have run: "run (k x) (emit (Got a x) (s\<lparr>tape := xs\<rparr>)) = (p', s')" and a: "allows M q (Got a x) (wps M (k x) Q)"
      using Call.prems x by (simp_all add: wps.simps)
    show ?thesis
      by (rule wps_after [OF a, where s = s and after = "emit (Got a x) (s\<lparr>tape := xs\<rparr>)"]) (use Call.IH [OF rangeI _ _ run] Call.prems(2) in simp_all)
  qed (use Call.prems in \<open>auto split: list.splits if_splits intro: exI [of _ "[]"]\<close>)
next
  case (Do a k)
  have run: "run k (emit (Did a) s) = (p', s')" using Do.prems(3) by simp
  show ?case
    by (rule wps_after [OF Do.prems(1) [unfolded wps.simps], where s = s and after = "emit (Did a) s"])
      (use Do.IH [OF _ _ run] Do.prems(2) in simp_all)
qed (auto intro: exI [of _ "[]"])

text \<open>The primitives.\<close>

lemma wps_prims [wps_simps]:
  "wps M (ask a) Q q \<longleftrightarrow> (\<forall>x. ans_ok a x \<longrightarrow> allows M q (Got a x) (Q x))"
  "wps M (effect a) Qe q \<longleftrightarrow> allows M q (Did a) (Qe ())"
  by (simp_all add: ask_def effect_def wps.simps)

subsection \<open>Certified programs\<close>

text \<open>A program whose runs a monitor accepts from an initial state.\<close>

locale certified =
  fixes M :: "'q \<Rightarrow> event \<Rightarrow> 'q option" and H :: "halt \<Rightarrow> 'q \<Rightarrow> bool"
    and p :: "'a proc" and Q :: "'a \<Rightarrow> 'q \<Rightarrow> bool" and q0 :: 'q
  assumes cert: "wp M H p Q q0"
begin

lemma accepted: "\<exists>q. mfold M q0 (trace (snd (run p (start I T)))) = Some q"
  using wp_sound [OF cert prod.collapse [symmetric], of "start I T"] by auto

lemma accepted_faulty:
  "trace s = [] \<Longrightarrow> \<exists>q. mfold M q0 (trace (snd (run p s))) = Some q"
  using wp_sound [OF cert prod.collapse [symmetric], of s] by auto

lemma accepted_prefix:
  assumes "trace s = []" "trace (snd (run p s)) = es @ fs"
  shows "\<exists>q. mfold M q0 es = Some q"
  using accepted_faulty [OF assms(1)] assms(2) by (auto dest: mfold_prefix)

lemma returned:
  assumes "trace s = []" "run p s = (Ret v, s')"
  shows "\<exists>q. mfold M q0 (trace s') = Some q \<and> Q v q"
  using wp_sound [OF cert assms(2)] assms(1) by auto

lemma halted:
  assumes "trace s = []" "run p s = (Halt h, s')"
  shows "\<exists>q. mfold M q0 (trace s') = Some q \<and> H h q"
  using wp_sound [OF cert assms(2)] assms(1) by auto

end

subsection \<open>Guarded events\<close>

text \<open>
  Most properties have one form: whenever an event happens, the relevant events before it
  satisfy a condition. \<open>guarded rel ok\<close> is the monitor that keeps the relevant history and
  rejects an event \<open>e\<close> after a history \<open>h\<close> unless \<open>ok e h\<close>.
\<close>

definition guarded :: "(event \<Rightarrow> bool) \<Rightarrow> (event \<Rightarrow> event list \<Rightarrow> bool) \<Rightarrow>
    event list \<Rightarrow> event \<Rightarrow> event list option" where
  "guarded rel ok h e = (if ok e h then Some (if rel e then h @ [e] else h) else None)"

lemma allows_guarded [wp_simps]:
  "allows (guarded rel ok) h e P \<longleftrightarrow> ok e h \<and> P (if rel e then h @ [e] else h)"
  by (auto simp: guarded_def allows_iff)

lemma mfold_guarded:
  "mfold (guarded rel ok) h es = Some h' \<Longrightarrow> h' = h @ filter rel es"
proof (induction es arbitrary: h)
  case (Cons e es)
  from Cons.prems obtain h1 where h1: "guarded rel ok h e = Some h1"
    and "mfold (guarded rel ok) h1 es = Some h'"
    by (auto split: option.splits)
  then have "h' = h1 @ filter rel es" by (intro Cons.IH)
  with h1 show ?case by (auto simp: guarded_def split: if_splits)
qed simp

lemma mfold_guarded_at:
  assumes "mfold (guarded rel ok) h (xs @ e # ys) = Some h'"
  shows "ok e (h @ filter rel xs)"
proof -
  obtain h1 where h1: "mfold (guarded rel ok) h xs = Some h1"
    using mfold_prefix [OF assms] by blast
  then have "mfold (guarded rel ok) h1 (e # ys) = Some h'"
    using assms by (simp add: mfold_append)
  then have "ok e h1"
    by (auto simp: guarded_def split: if_splits)
  then show ?thesis using mfold_guarded [OF h1] by simp
qed

text \<open>A program all of whose events are guarded.\<close>

locale guarded_program =
  certified "guarded rel ok" H p Q "[]" for rel ok H p Q
begin

lemma guard_holds:
  assumes "trace s = []" "trace (snd (run p s)) = xs @ e # ys"
  shows "ok e (filter rel xs)"
proof -
  obtain h where "mfold (guarded rel ok) [] (xs @ e # ys) = Some h"
    using accepted_faulty [OF assms(1)] assms(2) by auto
  from mfold_guarded_at [OF this] show ?thesis by simp
qed

lemma halted_history:
  assumes "trace s = []" "run p s = (Halt h, s')"
  shows "H h (filter rel (trace s'))"
  using halted [OF assms] mfold_guarded by fastforce

lemma returned_history:
  assumes "trace s = []" "run p s = (Ret v, s')"
  shows "Q v (filter rel (trace s'))"
  using returned [OF assms] mfold_guarded by fastforce

end

end
