(* ===== verification/Crypto.thy ===== *)
theory Crypto
  imports Monitor
begin

text \<open>
  The cryptographic libraries, as parameters of the model, and the two things the code
  builds on them: the session cipher (one ChaCha20 keystream per session, used by both
  sides in turn) and the 108-byte challenge.
\<close>

subsection \<open>Libraries\<close>

text \<open>
  The functions the code calls and does not define. \<open>chacha key nonce\<close> is the keystream of
  \<open>ChaCha20::new_from_slices\<close> (\<open>None\<close>: its length error); \<open>x_secret seed\<close> the X25519
  secret drawn from \<open>ChaCha20Rng::from_seed(seed)\<close>, \<open>x_public\<close> and \<open>x_dh\<close> the public
  key and the shared secret; \<open>blake2s_fw\<close> the firmware's BLAKE2s over two inputs;
  \<open>blake2s256\<close> the host's; \<open>argon2id m t p\<close> Argon2id (v0x13) with these parameters and
  a 32-byte output; \<open>p256_key\<close> and \<open>p256_sig\<close> parse a SEC1 public key and a signature,
  \<open>p256_verify\<close> is ECDSA verification.
\<close>

record crypto =
  chacha :: "bytes \<Rightarrow> bytes \<Rightarrow> (nat \<Rightarrow> byte) option"
  x_secret :: "bytes \<Rightarrow> bytes"
  x_public :: "bytes \<Rightarrow> bytes"
  x_dh :: "bytes \<Rightarrow> bytes \<Rightarrow> bytes"
  blake2s_fw :: "bytes \<Rightarrow> bytes \<Rightarrow> bytes"
  blake2s256 :: "bytes \<Rightarrow> bytes"
  argon2id :: "nat \<Rightarrow> nat \<Rightarrow> nat \<Rightarrow> bytes \<Rightarrow> bytes \<Rightarrow> bytes option"
  p256_key :: "bytes \<Rightarrow> bytes option"
  p256_sig :: "bytes \<Rightarrow> bytes option"
  p256_verify :: "bytes \<Rightarrow> bytes \<Rightarrow> bytes \<Rightarrow> bool"

text \<open>
  Documented behaviour of the libraries: array sizes fixed by their types, ChaCha20
  accepting exactly a 32-byte key and a 12-byte nonce, and Diffie-Hellman agreement.
\<close>

definition crypto_ok :: "crypto \<Rightarrow> bool" where
  "crypto_ok cr \<longleftrightarrow>
    (\<forall>s. length (x_public cr s) = 32) \<and>
    (\<forall>s p. length (x_dh cr s p) = 32) \<and>
    (\<forall>c h. length (blake2s_fw cr c h) = 32) \<and>
    (\<forall>d. length (blake2s256 cr d) = 32) \<and>
    (\<forall>m t p w salt h. argon2id cr m t p w salt = Some h \<longrightarrow> length h = 32) \<and>
    (\<forall>k n. chacha cr k n = None \<longleftrightarrow> length k \<noteq> 32 \<or> length n \<noteq> 12) \<and>
    (\<forall>a b. length a = 32 \<longrightarrow> length b = 32 \<longrightarrow>
       x_dh cr (x_secret cr a) (x_public cr (x_secret cr b)) =
       x_dh cr (x_secret cr b) (x_public cr (x_secret cr a)))"

lemma crypto_okD:
  assumes "crypto_ok cr"
  shows "length (x_public cr s) = 32" "length (x_dh cr s p) = 32"
    "length (blake2s_fw cr c h) = 32" "length (blake2s256 cr d) = 32"
    "argon2id cr m t q w salt = Some g \<Longrightarrow> length g = 32"
    "length k = 32 \<Longrightarrow> length n = 12 \<Longrightarrow> \<exists>ks. chacha cr k n = Some ks"
    "length a = 32 \<Longrightarrow> length b = 32 \<Longrightarrow>
       x_dh cr (x_secret cr a) (x_public cr (x_secret cr b)) =
       x_dh cr (x_secret cr b) (x_public cr (x_secret cr a))"
  using assms by (auto simp: crypto_ok_def)

text \<open>A small concrete library with these laws, for the witnesses.\<close>

definition pad32 :: "bytes \<Rightarrow> bytes" where
  "pad32 d = take 32 (d @ zeros 32)"

definition toy_crypto :: crypto where
  "toy_crypto = \<lparr>
     chacha = (\<lambda>k n. if length k = 32 \<and> length n = 12 then Some (\<lambda>i. k ! (i mod 32) + of_nat i) else None),
     x_secret = pad32, x_public = pad32, x_dh = (\<lambda>s p. xor_bytes (pad32 s) (pad32 p)),
     blake2s_fw = (\<lambda>c h. xor_bytes (pad32 c) (pad32 h)), blake2s256 = pad32,
     argon2id = (\<lambda>m t p w salt. Some (pad32 w)),
     p256_key = (\<lambda>b. if length b = 65 then Some b else None),
     p256_sig = (\<lambda>b. if length b = 64 then Some b else None),
     p256_verify = (\<lambda>k m s. s = take 64 m) \<rparr>"

lemma length_pad32 [simp]: "length (pad32 d) = 32"
  by (simp add: pad32_def)

lemma xor_bytes_commute: "xor_bytes xs ys = xor_bytes ys xs"
  by (rule nth_equalityI) (auto simp: xor_bytes_def xor.commute)

lemma pad32_id: "length d = 32 \<Longrightarrow> pad32 d = d"
  by (simp add: pad32_def)

lemma pad32_pad32 [simp]: "pad32 (pad32 d) = pad32 d"
  by (simp add: pad32_id)

lemma toy_crypto_ok: "crypto_ok toy_crypto"
proof -
  have dh: "xor_bytes (pad32 a) (pad32 b) = xor_bytes (pad32 b) (pad32 a)" for a b
    by (rule xor_bytes_commute)
  show ?thesis
    by (simp add: crypto_ok_def toy_crypto_def dh)
qed

subsection \<open>The session cipher\<close>

text \<open>A \<open>ChaCha20\<close> value: its keystream and how much of it has been used.\<close>

record cipher =
  ks :: "nat \<Rightarrow> byte"
  cpos :: nat

definition keystream_at :: "cipher \<Rightarrow> nat \<Rightarrow> bytes" where
  "keystream_at c n = map (ks c) [cpos c ..< cpos c + n]"

definition crypt :: "cipher \<Rightarrow> bytes \<Rightarrow> bytes \<times> cipher" where
  "crypt c data = (xor_bytes data (keystream_at c (length data)), c\<lparr>cpos := cpos c + length data\<rparr>)"

text \<open>
  \<open>apply_keystream\<close>, in place or from one buffer into another (\<open>_b2b\<close>): the call is an
  effect of the trace, so that the use of the keystream is observable.
\<close>

definition apply_keystream :: "cipher \<Rightarrow> bytes \<Rightarrow> (bytes \<times> cipher) proc" where
  "apply_keystream c data =
     bnd (effect (Keystream (cpos c) (length data))) (\<lambda>_. Ret (crypt c data))"

lemma run_apply_keystream [run_simps]:
  "run (bnd (apply_keystream c d) f) s =
   run (f (crypt c d)) (emit (Did (Keystream (cpos c) (length d))) s)"
  by (simp add: apply_keystream_def run_effect)

lemma wp_apply_keystream [wp_simps]:
  "wp M H (apply_keystream c d) Q q \<longleftrightarrow>
   allows M q (Did (Keystream (cpos c) (length d))) (Q (crypt c d))"
  by (simp add: apply_keystream_def wp_simps)

text \<open>
  What the protocol relies on: two parties whose ciphers are in the same state stay in the
  same state while they exchange messages, in whichever direction each message goes, and
  every message is decrypted to what was encrypted.
\<close>

fun crypt_all :: "('c \<Rightarrow> bytes \<Rightarrow> bytes \<times> 'c) \<Rightarrow> 'c \<Rightarrow> bytes list \<Rightarrow> bytes list \<times> 'c" where
  "crypt_all f c [] = ([], c)"
| "crypt_all f c (m # ms) =
     (let (x, c') = f c m; (xs, c'') = crypt_all f c' ms in (x # xs, c''))"

locale stream_cipher =
  fixes f :: "'c \<Rightarrow> bytes \<Rightarrow> bytes \<times> 'c"
  assumes len: "length (fst (f c d)) = length d"
    and inverse: "fst (f c (fst (f c d))) = d"
    and advance: "length d = length e \<Longrightarrow> snd (f c d) = snd (f c e)"
begin

lemma in_step: "snd (f c (fst (f c d))) = snd (f c d)"
  by (rule advance) (rule len)

lemma decrypt: "f c d = (x, c') \<Longrightarrow> f c x = (d, c')"
  using inverse [of c d] in_step [of c d] by (metis fst_conv prod.collapse snd_conv)

lemma conversation: "crypt_all f c ms = (xs, c') \<Longrightarrow> crypt_all f c xs = (ms, c')"
proof (induction ms arbitrary: c xs c')
  case (Cons m ms)
  obtain x c1 where 1: "f c m = (x, c1)" by fastforce
  obtain ys c2 where 2: "crypt_all f c1 ms = (ys, c2)" by fastforce
  from Cons.prems 1 2 have "xs = x # ys" "c' = c2" by simp_all
  with decrypt [OF 1] Cons.IH [OF 2] show ?case by simp
qed simp

end

interpretation session: stream_cipher crypt
  by unfold_locales (auto simp: crypt_def keystream_at_def)

lemma length_crypt [simp]: "length (fst (crypt c d)) = length d"
  by (rule session.len)

lemma snd_crypt [simp]: "snd (crypt c d) = c\<lparr>cpos := cpos c + length d\<rparr>"
  by (simp add: crypt_def)

subsection \<open>The challenge\<close>

text \<open>
  The four \<open>copy_from_slice\<close> calls that fill \<open>[0u8; 108]\<close>; both sides write the same
  ones (client/src/main.rs 129 to 133, host/src/lib.rs 446 to 450).
\<close>

definition challange :: "bytes \<Rightarrow> bytes \<Rightarrow> bytes \<Rightarrow> bytes \<Rightarrow> bytes" where
  "challange nonce host_pub tkey_pub enc_nonce =
     copy_at 96 enc_nonce (copy_at 64 tkey_pub (copy_at 32 host_pub (copy_at 0 nonce (zeros 108))))"

lemma challange_eq:
  assumes "length nonce = 32" "length hp = 32" "length tp = 32" "length en = 12"
  shows "challange nonce hp tp en = nonce @ hp @ tp @ en"
proof -
  have 1: "copy_at 0 nonce (zeros 108) = nonce @ zeros 76"
    using copy_at_append [of "[]" 0 nonce 108] assms by simp
  have 2: "copy_at 32 hp (nonce @ zeros 76) = (nonce @ hp) @ zeros 44"
    using copy_at_append [of nonce 32 hp 76] assms by simp
  have 3: "copy_at 64 tp ((nonce @ hp) @ zeros 44) = (nonce @ hp @ tp) @ zeros 12"
    using copy_at_append [of "nonce @ hp" 64 tp 44] assms by simp
  have 4: "copy_at 96 en ((nonce @ hp @ tp) @ zeros 12) = nonce @ hp @ tp @ en"
    using copy_at_append [of "nonce @ hp @ tp" 96 en 12] assms by (simp add: zeros_def)
  show ?thesis by (simp only: challange_def 1 2 3 4)
qed

end
