(* ===== verification/History.thy ===== *)
theory History
  imports Monitor
begin

text \<open>
  What the history of a program says: projections of a trace that the guards and the
  properties of several components speak about, with the equations that extend them by one
  event.
\<close>

text \<open>The messages read from peers, in order.\<close>

definition received :: "event list \<Rightarrow> bytes list" where
  "received h = concat (map (\<lambda>e. case e of In p bs \<Rightarrow> [bs] | _ \<Rightarrow> []) h)"

text \<open>How much keystream was used, and at which positions, in the order of use.\<close>

definition keystream_used :: "event list \<Rightarrow> nat" where
  "keystream_used h = sum_list (map (\<lambda>e. case e of
     Did a \<Rightarrow> (case a of Keystream p n \<Rightarrow> n | _ \<Rightarrow> 0) | _ \<Rightarrow> 0) h)"

definition keystream_positions :: "event list \<Rightarrow> nat list" where
  "keystream_positions h = concat (map (\<lambda>e. case e of
     Did a \<Rightarrow> (case a of Keystream p n \<Rightarrow> [p ..< p + n] | _ \<Rightarrow> []) | _ \<Rightarrow> []) h)"

text \<open>The exit codes of child processes waited for, and the random bytes drawn from the system.\<close>

definition exits :: "event list \<Rightarrow> int option list" where
  "exits h = concat (map (\<lambda>e. case e of
     Got a x \<Rightarrow> if a = Child ChildWait \<and> x \<noteq> AErr then [code_of x] else [] | _ \<Rightarrow> []) h)"

definition entropy :: "event list \<Rightarrow> bytes list" where
  "entropy h = concat (map (\<lambda>e. case e of
     Got a x \<Rightarrow> (case a of GetRandom n \<Rightarrow> [bytes_of x] | _ \<Rightarrow> []) | _ \<Rightarrow> []) h)"

text \<open>How often the user was asked for a passphrase and gave one that is long enough.\<close>

definition guesses :: "event list \<Rightarrow> nat" where
  "guesses h = length (filter (\<lambda>e. case e of
     Got a x \<Rightarrow> (case a of Output p as \<Rightarrow> 9 \<le> length (bytes_of x) | _ \<Rightarrow> False) | _ \<Rightarrow> False) h)"

lemma projections_append [simp]:
  "received (g @ h) = received g @ received h"
  "keystream_used (g @ h) = keystream_used g + keystream_used h"
  "keystream_positions (g @ h) = keystream_positions g @ keystream_positions h"
  "exits (g @ h) = exits g @ exits h"
  "entropy (g @ h) = entropy g @ entropy h"
  "guesses (g @ h) = guesses g + guesses h"
  by (simp_all add: received_def keystream_used_def keystream_positions_def exits_def entropy_def
      guesses_def)

lemma projections_Nil [simp]:
  "received [] = []" "keystream_used [] = 0" "keystream_positions [] = []" "exits [] = []"
  "entropy [] = []" "guesses [] = 0"
  by (simp_all add: received_def keystream_used_def keystream_positions_def exits_def entropy_def
      guesses_def)

lemma projections_Cons [simp]:
  "received (e # h) = (case e of In p bs \<Rightarrow> bs # received h | _ \<Rightarrow> received h)"
  "keystream_used (e # h) = (case e of
     Did a \<Rightarrow> (case a of Keystream p n \<Rightarrow> n + keystream_used h | _ \<Rightarrow> keystream_used h)
   | _ \<Rightarrow> keystream_used h)"
  "keystream_positions (e # h) = (case e of
     Did a \<Rightarrow> (case a of Keystream p n \<Rightarrow> [p ..< p + n] @ keystream_positions h
               | _ \<Rightarrow> keystream_positions h)
   | _ \<Rightarrow> keystream_positions h)"
  "exits (e # h) = (case e of
     Got a x \<Rightarrow> if a = Child ChildWait \<and> x \<noteq> AErr then code_of x # exits h else exits h
   | _ \<Rightarrow> exits h)"
  "entropy (e # h) = (case e of
     Got a x \<Rightarrow> (case a of GetRandom n \<Rightarrow> bytes_of x # entropy h | _ \<Rightarrow> entropy h)
   | _ \<Rightarrow> entropy h)"
  "guesses (e # h) = (case e of
     Got a x \<Rightarrow> (case a of Output p as \<Rightarrow>
       if 9 \<le> length (bytes_of x) then Suc (guesses h) else guesses h | _ \<Rightarrow> guesses h)
   | _ \<Rightarrow> guesses h)"
  by (auto simp: received_def keystream_used_def keystream_positions_def exits_def entropy_def
      guesses_def split: event.splits act.splits)

text \<open>
  If every use of the keystream starts where the last one ended, no position is used twice.
\<close>

definition in_sequence :: "event \<Rightarrow> event list \<Rightarrow> bool" where
  "in_sequence e h = (case e of
     Did a \<Rightarrow> (case a of Keystream p n \<Rightarrow> p = keystream_used h | _ \<Rightarrow> True) | _ \<Rightarrow> True)"

lemma positions_in_sequence:
  "(\<And>xs e ys. h = xs @ e # ys \<Longrightarrow> in_sequence e xs) \<Longrightarrow> keystream_positions h = [0 ..< keystream_used h]"
proof (induction h rule: rev_induct)
  case (snoc e h)
  have "keystream_positions h = [0 ..< keystream_used h]"
    by (rule snoc.IH) (use snoc.prems in auto)
  moreover have "in_sequence e h" using snoc.prems [of h e "[]"] by simp
  ultimately show ?case
    by (auto simp: in_sequence_def upt_add_eq_append [of 0, simplified] split: event.splits act.splits)
qed simp

end
