(* ===== verification/Client.thy ===== *)
theory Client
  imports Wire Crypto History
begin

text \<open>
  The client app that runs on the TKey (client/src/main.rs) and its build script
  (client/build.rs). \<open>client_main\<close> is \<open>main\<close>; the retry loop is \<open>client_loop\<close> with one
  iteration in \<open>client_attempt\<close>, and the two halves of the gate are \<open>verify_sig\<close> and
  \<open>judge_sig\<close>. The last section has what the properties say about the app's history. The start code
  that calls \<open>main\<close> is in Startup.
\<close>

subsection \<open>Build script\<close>

text \<open>
  The included file tpm_pubkey_raw.bin is 91 bytes; \<open>bytes[26..91]\<close> is the SEC1 key.
\<close>

definition sec1_bytes :: "bytes \<Rightarrow> bytes" where
  "sec1_bytes key_bytes = drop 26 (take 91 key_bytes)"

text \<open>\<open>main\<close> of build.rs: the exit status of the build script.\<close>

definition build_main :: "crypto \<Rightarrow> bytes \<Rightarrow> nat" where
  "build_main cr key_bytes = (case p256_key cr (sec1_bytes key_bytes) of None \<Rightarrow> 1 | Some _ \<Rightarrow> 0)"

subsection \<open>Device primitives\<close>

definition dev_panic :: "'a proc" where
  "dev_panic = Halt DeviceAbort"

definition random :: "nat \<Rightarrow> bytes proc" where
  "random n = bnd (ask (Random n)) (\<lambda>a. Ret (bytes_of a))"

definition read_cdi :: "bytes proc" where
  "read_cdi = bnd (ask ReadCdi) (\<lambda>a. Ret (bytes_of a))"

text \<open>\<open>rustkey::io::read_into\<close> waits for the bytes; it has no error.\<close>

definition read_into :: "nat \<Rightarrow> bytes proc" where
  "read_into n = Read Host n (\<lambda>r. case r of Some bs \<Rightarrow> Ret bs | None \<Rightarrow> Halt NoInput)"

definition write_u8 :: "byte \<Rightarrow> unit proc" where
  "write_u8 b = Write Host [b] (\<lambda>_. Ret ())"

fun write_u8_slice :: "bytes \<Rightarrow> unit proc" where
  "write_u8_slice [] = Ret ()"
| "write_u8_slice (b # bs) = bnd (write_u8 b) (\<lambda>_. write_u8_slice bs)"

abbreviation thn :: "unit proc \<Rightarrow> 'a proc \<Rightarrow> 'a proc" where
  "thn p k \<equiv> bnd p (\<lambda>_. k)"

abbreviation zeroize :: "string \<Rightarrow> unit proc" where
  "zeroize v \<equiv> effect (Zeroize v)"

subsection \<open>verify_sig\<close>

definition verify_sig :: "crypto \<Rightarrow> bytes \<Rightarrow> bytes \<Rightarrow> (dev_error + unit) proc" where
  "verify_sig cr key_bytes chal =
    (case p256_key cr (sec1_bytes key_bytes) of
       None \<Rightarrow> Ret (Inl Dev_BadPubkey)
     | Some tpm_pubkey \<Rightarrow>
         bnd (read_into 1) (\<lambda>status.
         if status ! 0 = dev_host_message_u8 Dev_TpmSigned then
           bnd (read_into 64) (\<lambda>sig.
           (case p256_sig cr sig of
              None \<Rightarrow> Ret (Inl Dev_MalformedSig)
            | Some sig' \<Rightarrow>
                if p256_verify cr tpm_pubkey chal sig' then
                  thn (write_u8 (dev_message_u8 Dev_GoodSig)) (Ret (Inr ()))
                else Ret (Inl Dev_InvalidSig)))
         else Ret (Inl Dev_TpmRefusedToSign)))"

subsection \<open>The passphrase loop\<close>

text \<open>
  One iteration: \<open>True\<close> when the host reported success (\<open>break\<close>), \<open>False\<close> when the loop
  goes on, with the cipher after it.
\<close>

definition client_attempt :: "crypto \<Rightarrow> cipher \<Rightarrow> (bool \<times> cipher) proc" where
  "client_attempt cr c =
    thn (write_u8 (dev_message_u8 Dev_Ready4pass)) (
    bnd (read_into 32) (\<lambda>encrypted_host_hash.
    bnd (apply_keystream c encrypted_host_hash) (\<lambda>(host_hash, c).
    bnd read_cdi (\<lambda>cdi.
    bnd (ask Blake2sCall) (\<lambda>r.
    if r = AErr then
      thn (zeroize ''cdi'') (
      thn (zeroize ''host_hash'') (
      thn (zeroize ''keyfile'') (
      thn (write_u8 (dev_error_u8 Dev_Blake2)) (
      thn (effect (SleepSecs 3)) (
      Ret (False, c))))))
    else
      (let keyfile = blake2s_fw cr cdi host_hash in
      thn (zeroize ''host_hash'') (
      bnd (apply_keystream c keyfile) (\<lambda>(encrypted_keyfile, c).
      thn (zeroize ''keyfile'') (
      thn (write_u8 (dev_message_u8 Dev_GoodPass)) (
      thn (write_u8_slice encrypted_keyfile) (
      thn (zeroize ''encrypted_keyfile'') (
      thn (zeroize ''cdi'') (
      bnd (read_into 1) (\<lambda>success.
      if success ! 0 = dev_host_message_u8 Dev_DecryptionSuccess then Ret (True, c)
      else thn (effect (SleepSecs 3)) (Ret (False, c))))))))))))))))"

text \<open>\<open>attempts\<close> counts up to 3; the measure is what is left.\<close>

function client_loop :: "crypto \<Rightarrow> cipher \<Rightarrow> nat \<Rightarrow> unit proc" where
  "client_loop cr c attempts =
    (if 3 \<le> attempts then Halt DeviceAbort
     else bnd (client_attempt cr c) (\<lambda>(success, c).
       if success then Ret () else client_loop cr c (attempts + 1)))"
  by pat_completeness auto
termination
  by (relation "measure (\<lambda>(cr, c, attempts). 3 - attempts)") auto

declare client_loop.simps [simp del]

subsection \<open>main\<close>

text \<open>What \<open>main\<close> does with the outcome of \<open>verify_sig\<close>.\<close>

definition judge_sig :: "dev_error + unit \<Rightarrow> unit proc" where
  "judge_sig r = (case r of
      Inr _ \<Rightarrow> effect (Led LED_GREEN)
    | Inl Dev_InvalidSig \<Rightarrow>
        thn (write_u8 (dev_error_u8 Dev_InvalidSig)) (
        bnd (ask (Touch 30 LED_PURPLE)) (\<lambda>t.
        if \<not> bool_of t then dev_panic else effect (Led LED_PURPLE)))
    | Inl Dev_TpmRefusedToSign \<Rightarrow>
        thn (write_u8 (dev_error_u8 Dev_InvalidSig)) (
        bnd (ask (Touch 30 LED_YELLOW)) (\<lambda>t.
        if \<not> bool_of t then dev_panic else effect (Led LED_YELLOW)))
    | Inl e \<Rightarrow> thn (write_u8 (dev_error_u8 e)) dev_panic)"

definition client_epilogue :: "'a proc" where
  "client_epilogue =
    thn (effect (Led LED_GREEN)) (
    thn (effect (SleepSecs 6)) (
    thn (effect (Led LED_OFF)) (
    Halt DeviceDone)))"

definition client_main :: "crypto \<Rightarrow> bytes \<Rightarrow> 'a proc" where
  "client_main cr key_bytes =
    bnd (random 32) (\<lambda>nonce.
    thn (write_u8_slice nonce) (
    bnd (random 12) (\<lambda>encryption_nonce.
    thn (write_u8_slice encryption_nonce) (
    bnd (random 32) (\<lambda>seed.
    thn (zeroize ''seed'') (
    let tkey_secret = x_secret cr seed;
        tkey_public = x_public cr tkey_secret in
    thn (write_u8_slice tkey_public) (
    bnd (read_into 32) (\<lambda>host_public.
    let ss = x_dh cr tkey_secret host_public in
    (case chacha cr ss encryption_nonce of
       None \<Rightarrow> thn (write_u8 (dev_error_u8 Dev_ChaChaInit)) dev_panic
     | Some stream \<Rightarrow>
         bnd (verify_sig cr key_bytes (challange nonce host_public tkey_public encryption_nonce)) (\<lambda>r.
         thn (judge_sig r) (
         thn (client_loop cr \<lparr>ks = stream, cpos = 0\<rparr> 0)
         client_epilogue)))))))))))"

subsection \<open>What the device's history says\<close>

text \<open>
  Projections of a trace, beside those of History: the random values drawn (nonce, encryption
  nonce, seed, in this order), the LED colours set, how often the CDI was read, and the
  three-second pauses.
\<close>

definition randoms :: "event list \<Rightarrow> bytes list" where
  "randoms h = concat (map (\<lambda>e. case e of
     Got a x \<Rightarrow> (case a of Random n \<Rightarrow> [bytes_of x] | _ \<Rightarrow> []) | _ \<Rightarrow> []) h)"

definition leds :: "event list \<Rightarrow> colour list" where
  "leds h = concat (map (\<lambda>e. case e of
     Did a \<Rightarrow> (case a of Led c \<Rightarrow> [c] | _ \<Rightarrow> []) | _ \<Rightarrow> []) h)"

definition cdi_reads :: "event list \<Rightarrow> nat" where
  "cdi_reads h = length (filter (\<lambda>e. case e of Got a x \<Rightarrow> a = ReadCdi | _ \<Rightarrow> False) h)"

definition pauses :: "event list \<Rightarrow> nat" where
  "pauses h = length (filter (\<lambda>e. e = Did (SleepSecs 3)) h)"

definition touched :: "colour \<Rightarrow> event list \<Rightarrow> bool" where
  "touched c h \<longleftrightarrow> Got (Touch 30 c) (ABool True) \<in> set h"

text \<open>
  The verdict on the TPM's answer, from the bytes that went over the wire: whether the host
  announced a signature, and whether it verifies, under the key in the app, for the challenge
  built from this session's nonces and both public keys.
\<close>

datatype verdict = Valid | Invalid | Refused | Unknown

definition verdict_of :: "crypto \<Rightarrow> bytes \<Rightarrow> event list \<Rightarrow> verdict" where
  "verdict_of cr key_bytes h = (case (randoms h, received h) of
     (nonce # en # seed # _, hp # status # rest) \<Rightarrow>
       if status ! 0 \<noteq> 0x97 then Refused
       else (case (rest, p256_key cr (sec1_bytes key_bytes)) of
         (sig # _, Some k) \<Rightarrow> (case p256_sig cr sig of
            Some sg \<Rightarrow>
              if p256_verify cr k (challange nonce hp (x_public cr (x_secret cr seed)) en) sg
              then Valid else Invalid
          | None \<Rightarrow> Unknown)
       | _ \<Rightarrow> Unknown)
   | _ \<Rightarrow> Unknown)"

text \<open>The three ways past the gate, each with its colour.\<close>

definition authorised :: "crypto \<Rightarrow> bytes \<Rightarrow> event list \<Rightarrow> bool" where
  "authorised cr key_bytes h \<longleftrightarrow>
     (leds h = [LED_GREEN] \<and> verdict_of cr key_bytes h = Valid) \<or>
     (leds h = [LED_PURPLE] \<and> verdict_of cr key_bytes h = Invalid \<and> touched LED_PURPLE h) \<or>
     (leds h = [LED_YELLOW] \<and> verdict_of cr key_bytes h = Refused \<and> touched LED_YELLOW h)"

text \<open>Which of the variables the code zeroizes hold secrets.\<close>

fun live_step :: "string set \<Rightarrow> event \<Rightarrow> string set" where
  "live_step L (Got a x) =
     (if a = ReadCdi then insert ''cdi'' L
      else if a = Blake2sCall then insert ''keyfile'' L else L)"
| "live_step L (Did a) = (case a of
     Keystream p n \<Rightarrow> insert (if ''keyfile'' \<in> L then ''encrypted_keyfile'' else ''host_hash'') L
   | Zeroize v \<Rightarrow> L - {v}
   | _ \<Rightarrow> L)"
| "live_step L _ = L"

definition live :: "event list \<Rightarrow> string set" where
  "live h = foldl live_step {} h \<union>
     (if 2 < length (randoms h) \<and> Did (Zeroize ''seed'') \<notin> set h then {''seed''} else {})"

end
