(* ===== verification/ClientSafety.thy ===== *)
theory ClientSafety
  imports Client
begin

text \<open>
  Safety of the client app against every host: one guard (\<open>device_ok\<close>) on the events of
  \<open>client_main\<close>, proved by weakest preconditions, and the properties read off it. The guard
  speaks about the history through projections of the trace (Client): messages received,
  random values, LED colours, CDI reads, pauses, keystream used, live secrets.
\<close>

subsection \<open>Preconditions of the device primitives\<close>

text \<open>Bytes the device writes are not part of the history its guards read.\<close>

fun relevant :: "event \<Rightarrow> bool" where
  "relevant (Out p bs) = False"
| "relevant _ = True"

definition silent :: "(event \<Rightarrow> event list \<Rightarrow> bool) \<Rightarrow> bool" where
  "silent ok \<longleftrightarrow> (\<forall>p bs h. ok (Out p bs) h)"

lemma wp_random [wp_simps]:
  "wp M H (random n) Q q \<longleftrightarrow>
   (\<forall>bs. length bs = n \<longrightarrow> allows M q (Got (Random n) (ABytes bs)) (Q bs))"
  by (auto simp: random_def wp_simps)

lemma wp_read_cdi [wp_simps]:
  "wp M H read_cdi Q q \<longleftrightarrow>
   (\<forall>bs. length bs = 32 \<longrightarrow> allows M q (Got ReadCdi (ABytes bs)) (Q bs))"
  by (auto simp: read_cdi_def wp_simps)

lemma wp_read_into [wp_simps]:
  "wp M H (read_into n) Q q \<longleftrightarrow>
   (\<forall>bs. length bs = n \<longrightarrow> allows M q (In Host bs) (Q bs)) \<and> allows M q (InFail Host) (H NoInput)"
  by (simp add: read_into_def wp.simps)

lemma wp_write_u8 [wp_simps]:
  "silent ok \<Longrightarrow> wp (guarded relevant ok) H (write_u8 b) Q h \<longleftrightarrow> Q () h"
  by (simp add: write_u8_def wp.simps wp_simps silent_def)

lemma wp_write_u8_slice [wp_simps]:
  "silent ok \<Longrightarrow> wp (guarded relevant ok) H (write_u8_slice bs) Q h \<longleftrightarrow> Q () h"
  by (induction bs) (simp_all add: wp_simps)

lemma wp_dev_panic [wp_simps]: "wp M H dev_panic Q q \<longleftrightarrow> H DeviceAbort q"
  by (simp add: dev_panic_def)

subsection \<open>Projections of an extended history\<close>

lemma randoms_append [simp]: "randoms (g @ h) = randoms g @ randoms h"
  by (simp add: randoms_def)
lemma leds_append [simp]: "leds (g @ h) = leds g @ leds h"
  by (simp add: leds_def)
lemma cdi_reads_append [simp]: "cdi_reads (g @ h) = cdi_reads g + cdi_reads h"
  by (simp add: cdi_reads_def)
lemma pauses_append [simp]: "pauses (g @ h) = pauses g + pauses h"
  by (simp add: pauses_def)
lemma touched_append [simp]: "touched c (g @ h) \<longleftrightarrow> touched c g \<or> touched c h"
  by (auto simp: touched_def)

lemma history_Nil [simp]:
  "randoms [] = []" "leds [] = []" "cdi_reads [] = 0" "pauses [] = 0" "touched c [] = False"
  by (simp_all add: randoms_def leds_def cdi_reads_def pauses_def touched_def)

lemma history_Cons [simp]:
  "randoms (e # h) = (case e of
     Got a x \<Rightarrow> (case a of Random n \<Rightarrow> bytes_of x # randoms h | _ \<Rightarrow> randoms h) | _ \<Rightarrow> randoms h)"
  "leds (e # h) = (case e of
     Did a \<Rightarrow> (case a of Led c \<Rightarrow> c # leds h | _ \<Rightarrow> leds h) | _ \<Rightarrow> leds h)"
  "cdi_reads (e # h) =
     (case e of Got a x \<Rightarrow> if a = ReadCdi then Suc (cdi_reads h) else cdi_reads h | _ \<Rightarrow> cdi_reads h)"
  "pauses (e # h) = (if e = Did (SleepSecs 3) then Suc (pauses h) else pauses h)"
  "touched c (e # h) \<longleftrightarrow> e = Got (Touch 30 c) (ABool True) \<or> touched c h"
  by (auto simp: randoms_def leds_def cdi_reads_def pauses_def touched_def
      split: event.splits act.splits)

lemma singleton_bytes: "length bs = Suc 0 \<Longrightarrow> bs = [bs ! 0]"
  by (cases bs) auto

lemma verdict_append:
  "verdict_of cr k h = v \<Longrightarrow> v \<noteq> Unknown \<Longrightarrow> verdict_of cr k (h @ es) = v"
  by (auto simp: verdict_of_def split: list.splits if_splits option.splits)

lemma authorised_append:
  "authorised cr k h \<Longrightarrow> leds es = [] \<Longrightarrow> authorised cr k (h @ es)"
  by (auto simp: authorised_def dest: verdict_append)

subsection \<open>The guard of the client app\<close>

definition device_ok :: "crypto \<Rightarrow> bytes \<Rightarrow> event \<Rightarrow> event list \<Rightarrow> bool" where
  "device_ok cr key_bytes e h = (case e of
     Out p bs \<Rightarrow> True
   | In p bs \<Rightarrow> live h = {}
   | InFail p \<Rightarrow> live h = {}
   | Got a x \<Rightarrow>
       (a = ReadCdi \<longrightarrow> authorised cr key_bytes h \<and> cdi_reads h < 3 \<and> cdi_reads h \<le> pauses h)
   | Did a \<Rightarrow> (case a of Keystream p n \<Rightarrow> p = keystream_used h | _ \<Rightarrow> True))"

text \<open>When the app stops, nothing secret is left; done() is only reached after success.\<close>

definition device_stop :: "halt \<Rightarrow> event list \<Rightarrow> bool" where
  "device_stop x h \<longleftrightarrow> live h = {} \<and>
     (x = DeviceDone \<longrightarrow> received h \<noteq> [] \<and> last (received h) = [0x99] \<and> 0 < cdi_reads h)"

abbreviation device_wp ::
  "crypto \<Rightarrow> bytes \<Rightarrow> 'a proc \<Rightarrow> ('a \<Rightarrow> event list \<Rightarrow> bool) \<Rightarrow> event list \<Rightarrow> bool" where
  "device_wp cr key_bytes \<equiv> wp (guarded relevant (device_ok cr key_bytes)) device_stop"

lemma silent_device [simp]: "silent (device_ok cr k)"
  by (simp add: silent_def device_ok_def)

text \<open>The loop invariant: \<open>n\<close> attempts made, cipher \<open>c\<close>.\<close>

definition loop_inv :: "crypto \<Rightarrow> bytes \<Rightarrow> nat \<Rightarrow> cipher \<Rightarrow> event list \<Rightarrow> bool" where
  "loop_inv cr key_bytes n c h \<longleftrightarrow> authorised cr key_bytes h \<and> cdi_reads h = n \<and> n \<le> pauses h \<and>
     keystream_used h = cpos c \<and> live h = {} \<and> 2 < length (randoms h)"


definition loop_done :: "event list \<Rightarrow> bool" where
  "loop_done h \<longleftrightarrow> live h = {} \<and> received h \<noteq> [] \<and> last (received h) = [0x99] \<and>
     0 < cdi_reads h \<and> 2 < length (randoms h)"

lemma live_append:
  "live h = {} \<Longrightarrow> 2 < length (randoms h) \<Longrightarrow> live (h @ es) = foldl live_step {} es"
  by (auto simp: live_def)

lemma client_attempt_wp:
  assumes inv: "loop_inv cr k n c h" and n: "n < 3"
  shows "device_wp cr k (client_attempt cr c)
    (\<lambda>(b, c') h'. if b then loop_done h' else loop_inv cr k (Suc n) c' h') h"
proof -
  have h: "authorised cr k h" "cdi_reads h = n" "n \<le> pauses h" "keystream_used h = cpos c"
    "live h = {}" "2 < length (randoms h)"
    using inv by (simp_all add: loop_inv_def)
  have ext: "authorised cr k (h @ es)" if "leds es = []" for es
    using h(1) that by (rule authorised_append)
  note live = live_append [OF h(5,6)]
  show ?thesis
    by (auto simp: client_attempt_def wp_simps device_ok_def device_stop_def loop_inv_def
          loop_done_def h n ext live case_prod_beta Let_def dest!: singleton_bytes)
qed


lemma client_loop_wp:
  "loop_inv cr k n c h \<Longrightarrow> n \<le> 3 \<Longrightarrow> device_wp cr k (client_loop cr c n) (\<lambda>_. loop_done) h"
proof (induction "3 - n" arbitrary: n c h)
  case 0
  then show ?case
    by (subst client_loop.simps) (simp add: device_stop_def loop_inv_def)
next
  case (Suc m)
  then have n: "n < 3" by simp
  have "device_wp cr k (client_attempt cr c) (\<lambda>v. device_wp cr k
      (case v of (b, c') \<Rightarrow> if b then Ret () else client_loop cr c' (n + 1)) (\<lambda>_. loop_done)) h"
    by (rule wp_mono [OF client_attempt_wp [OF Suc.prems(1) n]])
       (use Suc in \<open>auto split: if_splits\<close>)
  with n show ?case
    by (subst client_loop.simps) (simp add: wp_bnd)
qed

text \<open>Before the loop: three random values drawn, the seed wiped, one message received.\<close>

lemma verify_sig_wp:
  assumes "randoms h = [nonce, en, seed]" "received h = [hp]" "leds h = []"
    and "live h = {}"
  shows "device_wp cr k
    (verify_sig cr k (challange nonce hp (x_public cr (x_secret cr seed)) en))
    (\<lambda>r h'. randoms h' = randoms h \<and> leds h' = [] \<and> live h' = {} \<and> cdi_reads h' = cdi_reads h \<and>
       pauses h' = pauses h \<and> keystream_used h' = keystream_used h \<and> received h' \<noteq> [] \<and>
       (r = Inr () \<longrightarrow> verdict_of cr k h' = Valid) \<and>
       (r = Inl Dev_InvalidSig \<longrightarrow> verdict_of cr k h' = Invalid) \<and>
       (r = Inl Dev_TpmRefusedToSign \<longrightarrow> verdict_of cr k h' = Refused)) h"
proof -
  have live: "live (h @ es) = foldl live_step {} es" for es
    by (rule live_append) (simp_all add: assms)
  show ?thesis
    by (auto simp: verify_sig_def wp_simps device_ok_def device_stop_def assms live
          verdict_of_def split: option.splits)
qed

lemma judge_sig_wp:
  assumes "leds h = []" "live h = {}" "2 < length (randoms h)"
    "cdi_reads h = 0" "keystream_used h = 0"
    "r = Inr () \<Longrightarrow> verdict_of cr k h = Valid"
    "r = Inl Dev_InvalidSig \<Longrightarrow> verdict_of cr k h = Invalid"
    "r = Inl Dev_TpmRefusedToSign \<Longrightarrow> verdict_of cr k h = Refused"
  shows "device_wp cr k (judge_sig r) (\<lambda>_. loop_inv cr k 0 \<lparr>ks = stream, cpos = 0\<rparr>) h"
proof -
  note live = live_append [OF assms(2,3)]
  note verdict = verdict_append [where h = h]
  show ?thesis
    using assms
    by (auto simp: judge_sig_def wp_simps device_ok_def device_stop_def live loop_inv_def
          authorised_def verdict split: sum.splits dev_error.splits)
qed

lemma client_epilogue_wp:
  "loop_done h \<Longrightarrow> device_wp cr k client_epilogue (\<lambda>_ _. False) h"
  by (auto simp: client_epilogue_def wp_simps device_ok_def device_stop_def loop_done_def live_append)

lemma after_verify_wp:
  assumes "leds h = []" "live h = {}" "2 < length (randoms h)" "cdi_reads h = 0"
    "keystream_used h = 0"
    "r = Inr () \<Longrightarrow> verdict_of cr k h = Valid"
    "r = Inl Dev_InvalidSig \<Longrightarrow> verdict_of cr k h = Invalid"
    "r = Inl Dev_TpmRefusedToSign \<Longrightarrow> verdict_of cr k h = Refused"
  shows "device_wp cr k (thn (judge_sig r) (thn (client_loop cr \<lparr>ks = stream, cpos = 0\<rparr> 0)
      client_epilogue)) (\<lambda>_ _. False) h"
  unfolding wp_bnd
  by (intro wp_mono [OF judge_sig_wp] wp_mono [OF client_loop_wp] client_epilogue_wp)
     (use assms in auto)

lemma live_prefix: "live (e # h) = foldl live_step {} (e # h) \<union>
    (if 2 < length (randoms (e # h)) \<and> Did (Zeroize ''seed'') \<notin> set (e # h) then {''seed''} else {})"
  by (simp add: live_def)

lemma live_Nil [simp]: "live [] = {}"
  by (simp add: live_def)

lemma client_main_wp: "device_wp cr k (client_main cr k) (\<lambda>_ _. False) []"
  by (auto simp: client_main_def wp_bnd wp_random wp_write_u8_slice wp_write_u8 wp_effect
        wp_read_into wp_dev_panic allows_guarded device_ok_def device_stop_def Let_def live_prefix
        split: option.splits
        intro!: wp_mono [OF verify_sig_wp] after_verify_wp [THEN wp_bnd [THEN iffD1]])


subsection \<open>The app as a guarded program\<close>

interpretation device: guarded_program relevant "device_ok cr key_bytes" device_stop
    "client_main cr key_bytes" "\<lambda>_ _. False" for cr key_bytes
  by unfold_locales (rule client_main_wp)

lemma history_filter [simp]:
  "received (filter relevant h) = received h" "randoms (filter relevant h) = randoms h"
  "leds (filter relevant h) = leds h" "cdi_reads (filter relevant h) = cdi_reads h"
  "pauses (filter relevant h) = pauses h" "keystream_used (filter relevant h) = keystream_used h"
  "touched c (filter relevant h) = touched c h"
  by (induction h) (auto split: event.splits act.splits)

lemma authorised_filter [simp]:
  "authorised cr k (filter relevant h) = authorised cr k h"
  by (simp add: authorised_def verdict_of_def)

lemma foldl_live_filter: "foldl live_step L (filter relevant h) = foldl live_step L h"
proof (induction h arbitrary: L)
  case (Cons e h)
  then show ?case by (cases e) auto
qed simp

lemma live_filter [simp]: "live (filter relevant h) = live h"
  by (auto simp: live_def foldl_live_filter)

text \<open>A run from an arbitrary environment, its trace only counted from here.\<close>

definition device_run :: "crypto \<Rightarrow> bytes \<Rightarrow> env \<Rightarrow> unit proc \<times> env" where
  "device_run cr key_bytes s = run (client_main cr key_bytes) (s\<lparr>trace := []\<rparr>)"

definition device_trace :: "crypto \<Rightarrow> bytes \<Rightarrow> env \<Rightarrow> event list" where
  "device_trace cr key_bytes s = trace (snd (device_run cr key_bytes s))"

lemma device_guard:
  assumes "device_trace cr k s = xs @ e # ys"
  shows "device_ok cr k e (filter relevant xs)"
proof -
  have "trace (s\<lparr>trace := []\<rparr>) = []" by simp
  from device.guard_holds [OF this] assms show ?thesis
    by (simp add: device_trace_def device_run_def)
qed

lemma device_counts:
  "cdi_reads (take n (device_trace cr k s)) \<le> 3 \<and>
   cdi_reads (take n (device_trace cr k s)) \<le> pauses (take n (device_trace cr k s)) + 1"
proof (induction n)
  case (Suc n)
  let ?t = "device_trace cr k s"
  show ?case
  proof (cases "n < length ?t")
    case True
    have "device_ok cr k (?t ! n) (filter relevant (take n ?t))"
      by (rule device_guard [OF id_take_nth_drop [OF True]])
    with Suc True show ?thesis
      by (auto simp: take_Suc_conv_app_nth device_ok_def split: event.splits)
  next
    case False
    with Suc show ?thesis by simp
  qed
qed simp

lemma device_stops:
  "(case fst (device_run cr k s) of
      Ret v \<Rightarrow> False
    | Halt x \<Rightarrow> device_stop x (filter relevant (device_trace cr k s))
    | Read p n f \<Rightarrow> live (device_trace cr k s) = {}
    | _ \<Rightarrow> True)"
proof -
  obtain p' s' where r: "device_run cr k s = (p', s')" by fastforce
  from wp_sound [OF client_main_wp [of cr k] r [unfolded device_run_def]] obtain q where
    q: "mfold (guarded relevant (device_ok cr k)) [] (trace s') = Some q"
    and w: "device_wp cr k p' (\<lambda>_ _. False) q" by auto
  have q': "q = filter relevant (trace s')"
    using mfold_guarded [OF q] by simp
  show ?thesis
    using w unfolding r fst_conv snd_conv q' device_trace_def
    by (cases p') (auto simp: wp.simps allows_guarded device_ok_def)
qed

fun is_cdi_read :: "event \<Rightarrow> bool" where
  "is_cdi_read (Got a x) = (a = ReadCdi)"
| "is_cdi_read _ = False"

subsection \<open>Properties\<close>

text \<open>A session of the app in which everything is zero and the toy library is used.\<close>

definition demo_host_pub :: bytes where "demo_host_pub = zeros 32"

definition demo_device_tape :: "ans list" where
  "demo_device_tape =
     [ABytes (zeros 32), ABytes (zeros 12), ABytes (zeros 32), ABytes (zeros 32), AOk]"

definition demo_device_inbox :: "port \<Rightarrow> bytes" where
  "demo_device_inbox p =
     (if p = Host then demo_host_pub @ [0x97] @ zeros 64 @ zeros 32 @ [0x99] else [])"

definition demo_device :: env where
  "demo_device = start demo_device_inbox demo_device_tape"

definition demo_key :: bytes where "demo_key = zeros 91"

text \<open>
  Property C1. Whatever the host sends and the firmware answers, the app reads the CDI only
  after passing the gate: either the TPM's signature verified, under the key compiled into
  the app, over nonce, both public keys and encryption nonce of this very session, and the
  LED is green; or the host sent an invalid signature and the user touched the key while it
  flashed purple; or the host announced no signature and the user touched the key while it
  flashed yellow.
\<close>

theorem cdi_behind_gate:
  assumes "device_trace cr key_bytes s = xs @ Got ReadCdi x # ys"
  shows "authorised cr key_bytes xs"
  using device_guard [OF assms] by (simp add: device_ok_def)

theorem cdi_behind_gate_witness:
  "\<exists>xs x ys. device_trace toy_crypto demo_key demo_device = xs @ Got ReadCdi x # ys
     \<and> authorised toy_crypto demo_key xs"
proof -
  let ?t = "device_trace toy_crypto demo_key demo_device"
  have "?t = takeWhile (\<lambda>e. \<not> is_cdi_read e) ?t @ Got ReadCdi (ABytes (zeros 32)) #
      tl (dropWhile (\<lambda>e. \<not> is_cdi_read e) ?t)"
    by code_simp
  then show ?thesis using cdi_behind_gate by blast
qed

text \<open>
  Property C10. At every moment of every run the CDI has been read at most three times, and
  all but the last of these reads were followed by a pause of three seconds: no host gets
  more than three guesses out of one start of the app, nor faster ones.
\<close>

theorem three_slow_guesses:
  "cdi_reads (take n (device_trace cr key_bytes s)) \<le> 3
   \<and> cdi_reads (take n (device_trace cr key_bytes s)) \<le> pauses (take n (device_trace cr key_bytes s)) + 1"
  by (rule device_counts)

text \<open>
  Property C13. The app never uses a keystream byte twice: the positions it uses, in the
  order of use, are 0, 1, 2, ... without gap, over decryptions and encryptions of all
  attempts, whatever the host does.
\<close>

theorem device_keystream_fresh:
  "keystream_positions (device_trace cr key_bytes s) =
     [0 ..< keystream_used (device_trace cr key_bytes s)]"
  by (rule positions_in_sequence)
     (auto simp: device_ok_def in_sequence_def split: event.splits act.splits dest: device_guard)

text \<open>
  Property C19. Whenever the app waits for the host, and when it has stopped, none of the
  variables seed, host_hash, cdi, keyfile and encrypted_keyfile holds a secret: each has been
  zeroized since it was filled. The app never returns, and it reaches done() only after the
  host's last message was DecryptionSuccess and the CDI was used.
\<close>

theorem device_waits_without_secrets:
  "case fst (device_run cr key_bytes s) of
     Read p n f \<Rightarrow> live (device_trace cr key_bytes s) = {}
   | Halt x \<Rightarrow> live (device_trace cr key_bytes s) = {}
       \<and> (if x = DeviceDone
          then received (device_trace cr key_bytes s) \<noteq> []
            \<and> last (received (device_trace cr key_bytes s)) = [0x99]
            \<and> 0 < cdi_reads (device_trace cr key_bytes s)
          else True)
   | Ret v \<Rightarrow> False
   | _ \<Rightarrow> True"
  using device_stops [of cr key_bytes s]
  by (auto simp: device_stop_def split: proc.splits)

text \<open>
  Property C20. The build script accepts a public key file exactly when the app can use it:
  \<open>verify_sig\<close> reports BadPubkey if and only if the build had already failed.
\<close>

theorem build_check_excludes_bad_pubkey:
  "(fst (run (verify_sig cr key_bytes chal) s) = Ret (Inl Dev_BadPubkey)) = (build_main cr key_bytes \<noteq> 0)"
  by (auto simp: verify_sig_def build_main_def run_bnd read_into_def write_u8_def
      split: option.splits proc.splits prod.splits if_splits)

end
