(* ===== verification/Tpm.thy ===== *)
theory Tpm
  imports Wire Monitor
begin

text \<open>
  \<open>verify\<close> of host/src/lib.rs: asking the TPM to sign the challenge under the PCR policy, and
  packing the signature into the 64 bytes the client reads. The TPM library is the
  environment; each fallible call of it is one action, and \<open>?\<close> ends the function at the
  first failure.
\<close>

definition pcr_slots :: "nat list" where
  "pcr_slots = [0, 4, 8, 9]"

definition persistent_handle :: "32 word" where
  "persistent_handle = 0x81000001"

text \<open>Left-padding r and s into two 32-byte slots; \<open>None\<close> is the error \<open>TpmError\<close>.\<close>

definition pack_sig :: "bytes \<Rightarrow> bytes \<Rightarrow> bytes option" where
  "pack_sig r s =
    (if length r > 32 \<or> length s > 32 then None
     else Some (copy_at (64 - length s) s (copy_at (32 - length r) r (zeros 64))))"

abbreviation tss :: "io_error \<Rightarrow> box_error" where
  "tss \<equiv> (\<lambda>_. BoxLib ''tss_esapi'')"

definition verify :: "bytes \<Rightarrow> (box_error + bytes) proc" where
  "verify ticket =
    tryq tss (sys (Tpm (NewContext ''device:/dev/tpmrm0''))) (\<lambda>_.
    tryq tss (sys (Tpm StartAuthSession)) (\<lambda>sess.
    if sess = ANone then Ret (Inl (BoxStr ''TPM returned no session''))
    else
    tryq tss (sys (Tpm (BuildPcrs pcr_slots))) (\<lambda>_.
    tryq tss (sys (Tpm ToPolicySession)) (\<lambda>_.
    tryq tss (sys (Tpm (PolicyPcr pcr_slots))) (\<lambda>_.
    tryq tss (sys (Tpm (ToHandle persistent_handle))) (\<lambda>_.
    tryq tss (sys (Tpm (TrFromPublic persistent_handle))) (\<lambda>_.
    tryq tss (sys (Tpm (ToMaxBuffer ticket))) (\<lambda>_.
    tryq tss (sys (Tpm (HashSha256 ticket))) (\<lambda>digest.
    bnd (effect (Tpm SetSessions)) (\<lambda>_.
    tryq tss (sys (Tpm (Sign (bytes_of digest)))) (\<lambda>signature.
    (case signature of
       ASig r s \<Rightarrow>
         (case pack_sig r s of
            None \<Rightarrow> Ret (Inl (BoxHost TpmError))
          | Some sig_bytes \<Rightarrow> Ret (Inr sig_bytes))
     | _ \<Rightarrow> Ret (Inl (BoxStr ''unexpected TPM signature type''))))))))))))))"

subsection \<open>Packing\<close>

lemma length_pack_sig: "pack_sig r s = Some sig \<Longrightarrow> length sig = 64"
  by (auto simp: pack_sig_def split: if_splits)

lemma pack_sig_eq:
  "length r \<le> 32 \<Longrightarrow> length s \<le> 32 \<Longrightarrow>
   pack_sig r s = Some (zeros (32 - length r) @ r @ zeros (32 - length s) @ s)"
proof -
  assume le: "length r \<le> 32" "length s \<le> 32"
  have "copy_at (32 - length r) r (zeros 64) = zeros (32 - length r) @ r @ zeros 32"
    using le by (simp add: copy_at_def zeros_def)
  then show ?thesis
    using le by (simp add: pack_sig_def copy_at_def zeros_def)
qed

text \<open>
  Property C23. Packing an ECDSA signature loses nothing: it fails exactly when r or s is
  longer than 32 bytes, and otherwise gives 64 bytes whose two halves, read as big-endian
  numbers, are r and s, so that leading zeros the TPM stripped are restored.
\<close>

theorem pack_sig_values:
  "case pack_sig r s of
     None \<Rightarrow> 32 < length r \<or> 32 < length s
   | Some sig \<Rightarrow> length r \<le> 32 \<and> length s \<le> 32 \<and> length sig = 64
       \<and> be_val (take 32 sig) = be_val r \<and> be_val (drop 32 sig) = be_val s"
proof (cases "length r \<le> 32 \<and> length s \<le> 32")
  case True
  then show ?thesis by (simp add: pack_sig_eq be_val_append)
next
  case False
  then show ?thesis by (auto simp: pack_sig_def)
qed

subsection \<open>The policy\<close>

text \<open>
  The guard of \<open>verify\<close>: the signing key is used only after the session was bound to the
  PCRs and for the digest the TPM itself computed of the given ticket.
\<close>

definition policy_bound :: "bytes \<Rightarrow> bytes \<Rightarrow> event list \<Rightarrow> bool" where
  "policy_bound ticket digest h \<longleftrightarrow>
     Got (Tpm (PolicyPcr pcr_slots)) AOk \<in> set h \<and>
     Got (Tpm (TrFromPublic persistent_handle)) AOk \<in> set h \<and>
     Got (Tpm (HashSha256 ticket)) (ABytes digest) \<in> set h \<and>
     Did (Tpm SetSessions) \<in> set h"

definition tpm_ok :: "bytes \<Rightarrow> event \<Rightarrow> event list \<Rightarrow> bool" where
  "tpm_ok ticket e h = (case e of
     Got a x \<Rightarrow> (case a of
       Tpm c \<Rightarrow> (case c of Sign digest \<Rightarrow> policy_bound ticket digest h | _ \<Rightarrow> True)
     | _ \<Rightarrow> True)
   | _ \<Rightarrow> True)"

definition tpm_signed :: "bytes \<Rightarrow> event list \<Rightarrow> bool" where
  "tpm_signed sig h \<longleftrightarrow> (\<exists>digest r s. Got (Tpm (Sign digest)) (ASig r s) \<in> set h \<and> pack_sig r s = Some sig)"

lemma verify_wp:
  "wp (guarded (\<lambda>_. True) (tpm_ok ticket)) H (verify ticket)
     (\<lambda>r h. case r of Inr sig \<Rightarrow> tpm_signed sig h | Inl _ \<Rightarrow> True) []"
  by (auto simp: verify_def wp_simps tpm_ok_def policy_bound_def tpm_signed_def
      split: option.splits)

interpretation tpm: guarded_program "\<lambda>_. True" "tpm_ok ticket" H "verify ticket"
    "\<lambda>r h. case r of Inr sig \<Rightarrow> tpm_signed sig h | Inl _ \<Rightarrow> True" for ticket H
  by unfold_locales (rule verify_wp)

definition verify_trace :: "bytes \<Rightarrow> ans list \<Rightarrow> event list" where
  "verify_trace ticket answers = trace (snd (run (verify ticket) (start (\<lambda>_. []) answers)))"

text \<open>A TPM that signs: every call succeeds.\<close>

definition good_tpm :: "bytes \<Rightarrow> bytes \<Rightarrow> bytes \<Rightarrow> ans list" where
  "good_tpm digest r s = [AOk, AOk, AOk, AOk, AOk, AOk, AOk, AOk, ABytes digest, ASig r s]"

lemma verify_good_tpm [run_simps]:
  assumes "tape s = good_tpm digest r t @ rest" "pack_sig r t = Some sig"
  shows "run (bnd (verify ticket) f) s = run (f (Inr sig)) (s\<lparr>tape := rest, trace := trace s @
    [Got (Tpm (NewContext ''device:/dev/tpmrm0'')) AOk, Got (Tpm StartAuthSession) AOk,
     Got (Tpm (BuildPcrs pcr_slots)) AOk, Got (Tpm ToPolicySession) AOk,
     Got (Tpm (PolicyPcr pcr_slots)) AOk, Got (Tpm (ToHandle persistent_handle)) AOk,
     Got (Tpm (TrFromPublic persistent_handle)) AOk, Got (Tpm (ToMaxBuffer ticket)) AOk,
     Got (Tpm (HashSha256 ticket)) (ABytes digest), Did (Tpm SetSessions),
     Got (Tpm (Sign digest)) (ASig r t)]\<rparr>)"
  using assms by (simp add: verify_def run_simps good_tpm_def emit_def)

text \<open>
  Property C21. The TPM key is only asked to sign after the policy session was bound to PCRs
  0, 4, 8 and 9 and set for the command, with the persistent key loaded, and what it signs is
  the TPM's SHA-256 digest of exactly the ticket that was given. This holds in every run,
  whichever call fails.
\<close>

theorem sign_only_under_policy:
  assumes "verify_trace ticket answers = xs @ Got (Tpm (Sign digest)) x # ys"
  shows "policy_bound ticket digest xs"
proof -
  have "trace (start (\<lambda>_. []) answers) = []" by simp
  from tpm.guard_holds [OF this assms [unfolded verify_trace_def]] show ?thesis
    by (simp add: tpm_ok_def)
qed

theorem sign_only_under_policy_witness:
  "policy_bound [1] [2] (take 10 (verify_trace [1] (good_tpm [2] [3] [4])))"
proof -
  have "verify_trace [1] (good_tpm [2] [3] [4]) =
    take 10 (verify_trace [1] (good_tpm [2] [3] [4])) @ Got (Tpm (Sign [2])) (ASig [3] [4]) # []"
    by code_simp
  then show ?thesis by (rule sign_only_under_policy)
qed

subsection \<open>Outcomes\<close>

text \<open>Which answers of the TPM make \<open>verify\<close> fail, and with which error.\<close>

fun refusal :: "event \<Rightarrow> box_error option" where
  "refusal (Got (Tpm c) x) = (case x of
     AErr \<Rightarrow> Some (BoxLib ''tss_esapi'')
   | ANone \<Rightarrow> Some (BoxStr ''TPM returned no session'')
   | AOtherSig \<Rightarrow> Some (BoxStr ''unexpected TPM signature type'')
   | ASig r s \<Rightarrow> if pack_sig r s = None then Some (BoxHost TpmError) else None
   | _ \<Rightarrow> None)"
| "refusal _ = None"

definition no_failure :: "event list \<Rightarrow> bool" where
  "no_failure h \<longleftrightarrow> (\<forall>e \<in> set h. refusal e = None)"

text \<open>A run in which nothing fails.\<close>

definition signing :: "bytes \<Rightarrow> bytes \<Rightarrow> bytes \<Rightarrow> bytes \<Rightarrow> event list" where
  "signing ticket digest r s =
    [Got (Tpm (NewContext ''device:/dev/tpmrm0'')) AOk, Got (Tpm StartAuthSession) AOk,
     Got (Tpm (BuildPcrs pcr_slots)) AOk, Got (Tpm ToPolicySession) AOk,
     Got (Tpm (PolicyPcr pcr_slots)) AOk, Got (Tpm (ToHandle persistent_handle)) AOk,
     Got (Tpm (TrFromPublic persistent_handle)) AOk, Got (Tpm (ToMaxBuffer ticket)) AOk,
     Got (Tpm (HashSha256 ticket)) (ABytes digest), Did (Tpm SetSessions),
     Got (Tpm (Sign digest)) (ASig r s)]"

definition verify_post :: "bytes \<Rightarrow> box_error + bytes \<Rightarrow> event list \<Rightarrow> bool" where
  "verify_post ticket res h = (case res of
     Inr sig \<Rightarrow> (\<exists>digest r s. h = signing ticket digest r s \<and> pack_sig r s = Some sig)
   | Inl e \<Rightarrow> h \<noteq> [] \<and> refusal (last h) = Some e \<and> no_failure (butlast h))"

text \<open>How a run of \<open>verify\<close> may end, or where it may wait: for an answer, with no failure before.\<close>

definition verify_course :: "bytes \<Rightarrow> (box_error + bytes) proc \<times> env \<Rightarrow> bool" where
  "verify_course ticket ps = (case ps of
     (Ret r, s) \<Rightarrow> verify_post ticket r (trace s)
   | (Call a k, s) \<Rightarrow> no_failure (trace s) \<and>
       (case tape s of [] \<Rightarrow> True | x # _ \<Rightarrow> \<not> ans_ok a x)
   | _ \<Rightarrow> False)"

lemma course_sys:
  assumes "no_failure (trace s)"
    and "\<And>x xs. ans_ok (Tpm c) x \<Longrightarrow> x \<noteq> AErr \<Longrightarrow>
      verify_course ticket (run (f x) (emit (Got (Tpm c) x) (s\<lparr>tape := xs\<rparr>)))"
  shows "verify_course ticket (run (tryq tss (sys (Tpm c)) f) s)"
  using assms
  by (cases "tape s") (auto simp: verify_course_def verify_post_def no_failure_def sys_def tryq_def emit_def)

lemma course_verify: "trace s = [] \<Longrightarrow> verify_course ticket (run (verify ticket) s)"
  unfolding verify_def
  by (auto simp: emit_def effect_def no_failure_def intro!: course_sys split: option.splits ans.splits)
   (auto simp: verify_course_def verify_post_def signing_def no_failure_def)

text \<open>
  Property C22. What \<open>verify\<close> returns is what the TPM did, on every course of its answers. It
  returns a signature only after the run in which every call succeeded, in the order of the
  code, and then it is the packing of the r and s the TPM returned last. It returns an error
  only for, and right after, the first failure: a call that failed, a missing session, a
  signature of another kind or one too long, each with its own error. No failure is passed
  over: while it waits for the TPM, none has happened.
\<close>

theorem verify_result_is_tpm_signature:
  "case run (verify ticket) (start (\<lambda>_. []) answers) of
     (Ret r, s) \<Rightarrow> verify_post ticket r (trace s)
   | (Call a k, s) \<Rightarrow> no_failure (trace s) \<and>
       (case tape s of [] \<Rightarrow> True | x # _ \<Rightarrow> \<not> ans_ok a x)
   | _ \<Rightarrow> False"
  using course_verify [of "start (\<lambda>_. []) answers" ticket] by (simp add: verify_course_def)

end
