(* ===== verification/Loader.thy ===== *)
theory Loader
  imports Wire Crypto
begin

text \<open>
  \<open>load_app\<close> of host/src/lib.rs: sending the client app to the TKey's firmware in frames of
  129 bytes and checking the digest the firmware computed. Lengths keep their machine types:
  \<open>bin.len() as u32\<close> truncates, \<open>total\<close> is a \<open>usize\<close> (64 bits) whose subtraction wraps in
  a release build, and \<open>expected\<close> is an \<open>i32\<close>. The polling loop asks the tty at most 70
  times how many bytes have arrived.
\<close>

subsection \<open>Definitions\<close>

fun chunks :: "nat \<Rightarrow> bytes \<Rightarrow> bytes list" where
  "chunks n xs = (if n = 0 \<or> xs = [] then [] else take n xs # chunks n (drop n xs))"

declare chunks.simps [simp del]

definition to_le_bytes :: "32 word \<Rightarrow> bytes" where
  "to_le_bytes w = map (\<lambda>i. ucast (drop_bit (8 * i) w)) [0, 1, 2, 3]"

definition frame_header :: byte where
  "frame_header = (let tag = 0; domain = 2; len_code = 3 in
     (push_bit 5 tag) OR (push_bit 3 domain) OR len_code)"

definition div_ceil :: "32 word \<Rightarrow> 32 word \<Rightarrow> 32 word" where
  "div_ceil a b = (if a mod b = 0 then a div b else a div b + 1)"

text \<open>\<open>bin_len.div_ceil(127) as usize\<close>.\<close>

definition total_frames :: "bytes \<Rightarrow> 64 word" where
  "total_frames bin = ucast (div_ceil (of_nat (length bin) :: 32 word) 127)"

definition load_frame :: "bytes \<Rightarrow> bytes" where
  "load_frame chunk = copy_at 2 chunk (copy_at 1 [0x05] (copy_at 0 [frame_header] (zeros 129)))"

text \<open>\<open>(ntotal - 1) as i32 * 5\<close>.\<close>

definition expected_bytes :: "64 word \<Rightarrow> int" where
  "expected_bytes ntotal = sint ((ucast (ntotal - 1) :: 32 word) * 5)"

function poll_ready :: "int \<Rightarrow> int \<Rightarrow> nat \<Rightarrow> (box_error + unit) proc" where
  "poll_ready expected num passes =
    (if num < expected then
       if passes < 70 then
         tryq (\<lambda>_. BoxStr ''failed to get bytes to read'') (sys Fionread) (\<lambda>a.
         bnd (effect (SleepMillis 10)) (\<lambda>_.
         poll_ready expected (int_of a) (passes + 1)))
       else Ret (Inl (BoxStr ''binary got corrupted, must restart.''))
     else Ret (Inr ()))"
  by pat_completeness auto
termination
  by (relation "measure (\<lambda>(expected, num, passes). 70 - passes)") auto

declare poll_ready.simps [simp del]

text \<open>The last frame has been sent: wait for the responses and compare the digest.\<close>

definition finish_load :: "crypto \<Rightarrow> 64 word \<Rightarrow> bytes \<Rightarrow> (box_error + unit) proc" where
  "finish_load cr ntotal hashed =
    (let expected = expected_bytes ntotal in
    tryq id (poll_ready expected 0 0) (\<lambda>_.
    if expected < 0 then Halt Panic
    else
    tryq BoxIo (read_exact Device (nat expected)) (\<lambda>_.
    tryq BoxIo (read_exact Device 129) (\<lambda>resp.
    if take 32 (drop 3 resp) = take 32 (blake2s256 cr hashed) then Ret (Inr ())
    else Ret (Inl (BoxStr ''binary digests do not match, must restart app''))))))"

text \<open>\<open>for (i, bytes) in bin.chunks(127).enumerate()\<close>; \<open>hashed\<close> is what the hasher has seen.\<close>

fun send_frames ::
  "crypto \<Rightarrow> 64 word \<Rightarrow> bytes \<Rightarrow> nat \<Rightarrow> bytes list \<Rightarrow> (box_error + unit) proc" where
  "send_frames cr ntotal hashed i [] = Ret (Inr ())"
| "send_frames cr ntotal hashed i (chunk # cs) =
    tryq BoxIo (write_all Device (load_frame chunk)) (\<lambda>_.
    if of_nat i = ntotal - 1 then finish_load cr ntotal (hashed @ chunk)
    else send_frames cr ntotal (hashed @ chunk) (i + 1) cs)"

definition load_app :: "crypto \<Rightarrow> bytes \<Rightarrow> (box_error + unit) proc" where
  "load_app cr bin =
    tryq BoxIo (write_all Device [frame_header]) (\<lambda>_.
    tryq BoxIo (write_all Device [0x03]) (\<lambda>_.
    tryq BoxIo (write_all Device (to_le_bytes (of_nat (length bin)))) (\<lambda>_.
    tryq BoxIo (write_all Device [0]) (\<lambda>_.
    tryq BoxIo (write_all Device (zeros 32)) (\<lambda>_.
    tryq BoxIo (write_all Device (zeros 90)) (\<lambda>_.
    tryq BoxIo (read_exact Device 5) (\<lambda>resp.
    if resp ! 2 \<noteq> 0 then Ret (Inl (BoxStr ''tkey rejected load_app request..''))
    else send_frames cr (total_frames bin) [] 0 (chunks 127 bin))))))))"

subsection \<open>Chunks\<close>

lemma chunks_Nil [simp]: "chunks n [] = []"
  by (subst chunks.simps) simp

lemma chunks_step: "n \<noteq> 0 \<Longrightarrow> xs \<noteq> [] \<Longrightarrow> chunks n xs = take n xs # chunks n (drop n xs)"
  by (subst chunks.simps) simp

lemma concat_chunks: "n \<noteq> 0 \<Longrightarrow> concat (chunks n xs) = xs"
proof (induction n xs rule: chunks.induct)
  case (1 n xs)
  then show ?case by (cases "xs = []") (simp_all add: chunks_step)
qed

lemma length_chunk: "c \<in> set (chunks n xs) \<Longrightarrow> 0 < length c \<and> length c \<le> n"
proof (induction n xs rule: chunks.induct)
  case (1 n xs)
  then show ?case
    by (cases "n = 0 \<or> xs = []") (auto simp: chunks.simps [of n xs] split: if_splits)
qed

lemma length_chunks: "n \<noteq> 0 \<Longrightarrow> length (chunks n xs) = (length xs + n - 1) div n"
proof (induction n xs rule: chunks.induct)
  case (1 n xs)
  show ?case
  proof (cases "xs = []")
    case False
    with 1 have IH: "length (chunks n (drop n xs)) = (length xs - n + n - 1) div n" by simp
    show ?thesis
    proof (cases "n \<le> length xs")
      case True
      then have "(length xs + n - 1) div n = Suc ((length xs - 1) div n)"
        using \<open>n \<noteq> 0\<close> False
        by (metis Nat.add_diff_assoc2 One_nat_def Suc_leI div_add_self2 length_greater_0_conv plus_1_eq_Suc add.commute)
      with True IH False \<open>n \<noteq> 0\<close> show ?thesis by (simp add: chunks_step)
    next
      case f: False
      then have "drop n xs = []" by simp
      moreover have "(length xs + n - 1) div n = 1"
        using f False by (intro div_nat_eqI) (cases xs; simp)+
      ultimately show ?thesis using False \<open>n \<noteq> 0\<close> by (simp add: chunks_step)
    qed
  qed (use \<open>n \<noteq> 0\<close> in simp)
qed


subsection \<open>Bounds\<close>

lemma ceil_127: "(n :: nat) mod 127 = 0 \<Longrightarrow> (n + 126) div 127 = n div 127"
  "n mod 127 \<noteq> 0 \<Longrightarrow> (n + 126) div 127 = n div 127 + 1"
proof -
  have split: "(n + 126) div 127 = n div 127 + (n mod 127 + 126) div 127"
    by (simp add: div_add1_eq [of n 126 127])
  then show "n mod 127 = 0 \<Longrightarrow> (n + 126) div 127 = n div 127" by simp
  assume "n mod 127 \<noteq> 0"
  then have "(n mod 127 + 126) div 127 = 1"
    by (intro div_nat_eqI) (simp_all add: less_Suc_eq_le)
  with split show "(n + 126) div 127 = n div 127 + 1" by simp
qed

lemma unat_div_ceil_127: "unat (div_ceil a 127) = (unat a + 126) div 127"
proof -
  have lt: "unat a < 4294967296"
    using unsigned_less [of a] by simp
  have m: "a mod 127 = 0 \<longleftrightarrow> unat a mod 127 = 0"
    by (simp add: word_unat_eq_iff unat_mod)
  have d: "unat (a div 127) = unat a div 127"
    by (simp add: unat_div)
  have "unat a div 127 + 1 < 4294967296" using lt by linarith
  then have s: "unat (a div 127 + 1) = unat a div 127 + 1"
    by (simp add: unat_word_ariths d)
  show ?thesis
    by (cases "unat a mod 127 = 0") (simp_all add: div_ceil_def m d s ceil_127)
qed

lemma total_frames_eq:
  assumes "length bin < 2 ^ 32"
  shows "total_frames bin = of_nat (length (chunks 127 bin))"
proof -
  have "unat (of_nat (length bin) :: 32 word) = length bin"
    using assms by (simp add: unat_of_nat)
  then have "unat (div_ceil (of_nat (length bin)) 127 :: 32 word) = length (chunks 127 bin)"
    by (simp add: unat_div_ceil_127 length_chunks)
  then show ?thesis
    unfolding total_frames_def by (metis of_nat_unat)
qed

lemma chunks_small: "length bin < 2 ^ 32 \<Longrightarrow> length (chunks 127 bin) < 33818642"
  by (simp add: length_chunks)

lemma ucast_small: "n < 2 ^ 32 \<Longrightarrow> (ucast (of_nat n :: 64 word) :: 32 word) = of_nat n"
  by (simp add: word_unat_eq_iff unsigned_ucast_eq unsigned_of_nat take_bit_nat_eq_self)

lemma of_nat_eq_iff_word: "m < 2 ^ 64 \<Longrightarrow> n < 2 ^ 64 \<Longrightarrow> (of_nat m :: 64 word) = of_nat n \<longleftrightarrow> m = n"
  by (simp add: word_unat_eq_iff unsigned_of_nat take_bit_nat_eq_self)

lemma expected_bytes_eq:
  assumes "length bin < 2 ^ 32" "bin \<noteq> []"
  shows "expected_bytes (total_frames bin) = 5 * (int (length (chunks 127 bin)) - 1)"
proof -
  define n where "n = length (chunks 127 bin) - 1"
  have n: "length (chunks 127 bin) = Suc n"
    using assms(2) by (simp add: n_def chunks_step)
  have small: "5 * n < 2 ^ 31" using chunks_small [OF assms(1)] n by simp
  have "total_frames bin - 1 = of_nat n"
    by (simp add: total_frames_eq [OF assms(1)] n)
  then have "(ucast (total_frames bin - 1) :: 32 word) * 5 = of_nat (5 * n)"
    using small by (simp add: ucast_small)
  then have "expected_bytes (total_frames bin) = sint (of_nat (5 * n) :: 32 word)"
    by (simp only: expected_bytes_def)
  also have "\<dots> = int (5 * n)"
    using small by (rule sint_small)
  finally show ?thesis by (simp add: n)
qed


subsection \<open>Frames\<close>

lemma load_frame_eq:
  assumes "length c \<le> 127"
  shows "load_frame c = [frame_header, 0x05] @ c @ zeros (127 - length c)"
proof -
  have 1: "copy_at 0 [frame_header] (zeros 129) = [frame_header] @ zeros 128"
    using copy_at_append [of "[]" 0 "[frame_header]" 129] by simp
  have 2: "copy_at 1 [0x05] ([frame_header] @ zeros 128) = [frame_header, 0x05] @ zeros 127"
    using copy_at_append [of "[frame_header]" 1 "[0x05]" 128] by simp
  have 3: "copy_at 2 c ([frame_header, 0x05] @ zeros 127) =
      [frame_header, 0x05] @ c @ zeros (127 - length c)"
    by (rule copy_at_append) (use assms in simp_all)
  show ?thesis by (simp only: load_frame_def 1 2 3)
qed

lemma frame_header_eq: "frame_header = 0x13"
  by (simp add: frame_header_def)

text \<open>What the firmware receives: the request, then one frame per chunk.\<close>

definition load_request :: "bytes \<Rightarrow> bytes" where
  "load_request bin = [frame_header, 0x03] @ to_le_bytes (of_nat (length bin)) @ zeros 123"

definition load_stream :: "bytes \<Rightarrow> bytes" where
  "load_stream bin = load_request bin @ concat (map load_frame (chunks 127 bin))"

lemma expected_nonneg: "length bin < 2 ^ 32 \<Longrightarrow> bin \<noteq> [] \<Longrightarrow> 0 \<le> expected_bytes (total_frames bin)"
  by (simp add: expected_bytes_eq chunks_step)

definition unframe :: "bytes \<Rightarrow> bytes" where
  "unframe frame = drop 2 frame"

text \<open>
  Property C25. The frames reassemble to the binary: every frame of \<open>bin.chunks(127)\<close> is 129
  bytes long and starts with the header 0x13 and command 0x05, and the payloads of all
  frames, each followed by nothing but zero padding, are the binary in order.
  As long as the binary is shorter than 2^32 bytes the counter \<open>total\<close> is the number of
  frames, and \<open>expected\<close> is five bytes for each frame but the last, never negative.
\<close>

theorem load_frames_carry_binary:
  assumes "length bin < 2 ^ 32" "bin \<noteq> []"
  shows "(\<forall>c \<in> set (chunks 127 bin).
      length (load_frame c) = 129 \<and> take 2 (load_frame c) = [0x13, 0x05]
      \<and> take (length c) (unframe (load_frame c)) = c
      \<and> drop (length c) (unframe (load_frame c)) = zeros (127 - length c))
    \<and> concat (chunks 127 bin) = bin
    \<and> total_frames bin = of_nat (length (chunks 127 bin))
    \<and> length (chunks 127 bin) = (length bin + 126) div 127
    \<and> expected_bytes (total_frames bin) = 5 * (int (length (chunks 127 bin)) - 1)
    \<and> 0 \<le> expected_bytes (total_frames bin)"
proof (intro conjI ballI)
  show "0 \<le> expected_bytes (total_frames bin)"
    by (rule expected_nonneg [OF assms])
  show "length (chunks 127 bin) = (length bin + 126) div 127"
    by (simp add: length_chunks add.commute)
  show "expected_bytes (total_frames bin) = 5 * (int (length (chunks 127 bin)) - 1)"
    by (rule expected_bytes_eq [OF assms])
qed (auto simp: load_frame_eq frame_header_eq unframe_def concat_chunks
    total_frames_eq [OF assms(1)] dest!: length_chunk)

theorem load_frames_carry_binary_witness:
  "length (chunks 127 (zeros 200)) = (length (zeros 200) + 126) div 127
   \<and> expected_bytes (total_frames (zeros 200)) = 5 * (int (length (chunks 127 (zeros 200))) - 1)"
proof -
  have "length (zeros 200) < 2 ^ 32" "zeros 200 \<noteq> []" by (simp_all add: zeros_def)
  from load_frames_carry_binary [OF this] show ?thesis by blast
qed

subsection \<open>The loader against every firmware\<close>

definition polls :: "event list \<Rightarrow> nat" where
  "polls h = length (filter (\<lambda>e. case e of Got a x \<Rightarrow> a = Fionread | _ \<Rightarrow> False) h)"

lemma polls_simps [simp]:
  "polls [] = 0" "polls (g @ h) = polls g + polls h"
  "polls (e # h) = (case e of Got a x \<Rightarrow> if a = Fionread then Suc (polls h) else polls h | _ \<Rightarrow> polls h)"
  by (auto simp: polls_def split: event.splits)

text \<open>At most 70 questions, and no frame before the firmware accepted the request.\<close>

definition load_ok :: "event \<Rightarrow> event list \<Rightarrow> bool" where
  "load_ok e h = (case e of
     Got a x \<Rightarrow> polls h < 70
   | Out p bs \<Rightarrow> length bs = 129 \<longrightarrow> (\<exists>resp. In Device resp \<in> set h \<and> resp ! 2 = 0)
   | _ \<Rightarrow> True)"

lemma load_ok_simps [simp]:
  "load_ok (Got a x) h \<longleftrightarrow> polls h < 70"
  "load_ok (Out p bs) h \<longleftrightarrow>
     (length bs = 129 \<longrightarrow> (\<exists>resp. In Device resp \<in> set h \<and> resp ! 2 = 0))"
  "load_ok (In p bs) h" "load_ok (InFail p) h" "load_ok (Did a) h"
  by (simp_all add: load_ok_def)

definition digest_ok :: "crypto \<Rightarrow> bytes \<Rightarrow> event list \<Rightarrow> bool" where
  "digest_ok cr bin h \<longleftrightarrow> (\<exists>g resp. h = g @ [In Device resp] \<and> length resp = 129 \<and>
     take 32 (drop 3 resp) = take 32 (blake2s256 cr bin))"

abbreviation load_wp :: "'a proc \<Rightarrow> ('a \<Rightarrow> event list \<Rightarrow> bool) \<Rightarrow> event list \<Rightarrow> bool" where
  "load_wp \<equiv> wp (guarded (\<lambda>_. True) load_ok) (\<lambda>_ _. False)"

lemma poll_ready_wp:
  "polls h = n \<Longrightarrow> n \<le> 70 \<Longrightarrow>
   load_wp (poll_ready expected num n) (\<lambda>_ h'. sent Device h' = sent Device h) h"
proof (induction "70 - n" arbitrary: n num h)
  case 0
  then show ?case by (subst poll_ready.simps) simp
next
  case (Suc m)
  have less: "n < 70" "m = 70 - Suc n" using Suc.hyps(2) by simp_all
  show ?case
    by (subst poll_ready.simps)
       (use less Suc.prems in \<open>auto simp: wp_simps intro!: wp_mono [OF Suc.hyps(1)]\<close>)
qed

lemma finish_load_wp:
  assumes "polls h = 0" "0 \<le> expected_bytes ntotal"
  shows "load_wp (finish_load cr ntotal hashed)
    (\<lambda>r h'. case r of Inr _ \<Rightarrow> sent Device h' = sent Device h \<and> digest_ok cr hashed h' | Inl _ \<Rightarrow> True) h"
  unfolding finish_load_def Let_def wp_tryq
  by (rule wp_mono [OF poll_ready_wp])
     (use assms in \<open>auto simp: wp_simps digest_ok_def split: sum.splits\<close>)

lemma send_frames_wp:
  assumes "polls h = 0" "0 \<le> expected_bytes ntotal"
    "ntotal = of_nat (i + length cs)" "i + length cs < 2 ^ 64" "cs \<noteq> []"
    "\<exists>resp. In Device resp \<in> set h \<and> resp ! 2 = 0"
  shows "load_wp (send_frames cr ntotal hashed i cs)
    (\<lambda>r h'. case r of
       Inr _ \<Rightarrow> sent Device h' = sent Device h @ concat (map load_frame cs)
         \<and> digest_ok cr (hashed @ concat cs) h'
     | Inl _ \<Rightarrow> True) h"
  using assms
proof (induction cs arbitrary: i hashed h)
  case (Cons c cs)
  have last: "of_nat i = ntotal - 1 \<longleftrightarrow> cs = []"
  proof -
    have "ntotal - 1 = of_nat (i + length cs)"
      using Cons.prems(3) by simp
    moreover have "(of_nat i :: 64 word) = of_nat (i + length cs) \<longleftrightarrow> i = i + length cs"
      using Cons.prems(4) by (intro of_nat_eq_iff_word) auto
    ultimately show ?thesis by auto
  qed
  show ?case
  proof (cases "cs = []")
    case True
    let ?h = "h @ [Out Device (load_frame c)]"
    have "load_wp (finish_load cr ntotal (hashed @ c))
      (\<lambda>r h'. case r of Inr _ \<Rightarrow> sent Device h' = sent Device ?h \<and> digest_ok cr (hashed @ c) h'
        | Inl _ \<Rightarrow> True) ?h"
      by (rule finish_load_wp) (use Cons.prems in simp_all)
    then have "load_wp (finish_load cr ntotal (hashed @ c))
      (\<lambda>r h'. case r of Inr _ \<Rightarrow> sent Device h' = sent Device h @ concat (map load_frame (c # cs))
          \<and> digest_ok cr (hashed @ concat (c # cs)) h'
        | Inl _ \<Rightarrow> True) ?h"
      by (rule wp_mono) (simp add: True split: sum.splits)
    with True last Cons.prems(6) show ?thesis by (simp add: wp_simps)
  next
    case False
    let ?h = "h @ [Out Device (load_frame c)]"
    have "load_wp (send_frames cr ntotal (hashed @ c) (i + 1) cs)
      (\<lambda>r h'. case r of
         Inr _ \<Rightarrow> sent Device h' = sent Device ?h @ concat (map load_frame cs)
           \<and> digest_ok cr ((hashed @ c) @ concat cs) h'
       | Inl _ \<Rightarrow> True) ?h"
      by (rule Cons.IH) (use Cons.prems False in auto)
    then have "load_wp (send_frames cr ntotal (hashed @ c) (i + 1) cs)
      (\<lambda>r h'. case r of
         Inr _ \<Rightarrow> sent Device h' = sent Device h @ concat (map load_frame (c # cs))
           \<and> digest_ok cr (hashed @ concat (c # cs)) h'
       | Inl _ \<Rightarrow> True) ?h"
      by (rule wp_mono) (simp split: sum.splits)
    with False last Cons.prems(6) show ?thesis by (simp add: wp_simps)
  qed
qed simp

text \<open>The request itself, and the whole function.\<close>

lemma load_app_wp:
  assumes "length bin < 2 ^ 32"
  shows "load_wp (load_app cr bin)
    (\<lambda>r h. case r of
       Inr _ \<Rightarrow> sent Device h = load_stream bin \<and> (bin = [] \<or> digest_ok cr bin h)
     | Inl _ \<Rightarrow> True) []"
proof -
  have req: "[frame_header] @ [0x03] @ to_le_bytes w @ [0] @ zeros 32 @ zeros 90
      = [frame_header, 0x03] @ to_le_bytes w @ zeros 123" for w
    by (simp add: zeros_def flip: replicate_add replicate_Suc)
  have len: "length (to_le_bytes w) = 4" for w
    by (simp add: to_le_bytes_def)
  show ?thesis
  proof (cases "bin = []")
    case True
    then show ?thesis
      by (auto simp: load_app_def wp_simps load_stream_def load_request_def req [simplified] len)
  next
    case False
    have "chunks 127 bin \<noteq> []" using False by (simp add: chunks_step)
    moreover have "length (chunks 127 bin) < 2 ^ 64" using chunks_small [OF assms] by simp
    moreover have "0 \<le> expected_bytes (total_frames bin)"
      by (rule expected_nonneg [OF assms False])
    ultimately show ?thesis
      using False
      by (auto simp: load_app_def wp_simps load_stream_def load_request_def req [simplified] len
          total_frames_eq [OF assms] concat_chunks
          intro!: wp_mono [OF send_frames_wp] split: sum.splits)
  qed
qed


text \<open>
  Property C24. The loader accepts only what the device confirms. For every firmware and every
  failure of the line: if \<open>load_app\<close> returns Ok, then exactly the request and all frames of
  the binary were written, and, unless the binary is empty, the last thing read was a
  129-byte response whose bytes 3 to 34 are the BLAKE2s digest of the binary. It never
  panics.
\<close>

theorem load_app_checks_digest:
  assumes "length bin < 2 ^ 32"
  shows "case run (load_app cr bin) (s\<lparr>trace := []\<rparr>) of
     (Ret (Inr _), s') \<Rightarrow>
       sent Device (trace s') = load_stream bin \<and> (bin = [] \<or> digest_ok cr bin (trace s'))
   | (Halt x, s') \<Rightarrow> False
   | _ \<Rightarrow> True"
proof -
  obtain p s' where r: "run (load_app cr bin) (s\<lparr>trace := []\<rparr>) = (p, s')" by fastforce
  from wp_sound [OF load_app_wp [OF assms] r] obtain q where
    q: "mfold (guarded (\<lambda>_. True) load_ok) [] (trace s') = Some q"
    and p: "load_wp p (\<lambda>r h. case r of
       Inr _ \<Rightarrow> sent Device h = load_stream bin \<and> (bin = [] \<or> digest_ok cr bin h)
     | Inl _ \<Rightarrow> True) q" by auto
  have "q = trace s'" using mfold_guarded [OF q] by simp
  with p show ?thesis
    unfolding r by (cases p) (auto split: sum.splits)
qed

theorem load_app_checks_digest_witness:
  "case run (load_app toy_crypto (zeros 3)) ((start (\<lambda>_. zeros 134) [])\<lparr>trace := []\<rparr>) of
     (Ret (Inr _), s') \<Rightarrow>
       sent Device (trace s') = load_stream (zeros 3) \<and> digest_ok toy_crypto (zeros 3) (trace s')
   | _ \<Rightarrow> False"
proof -
  have len: "length (zeros 3) < 2 ^ 32" by simp
  have "case run (load_app toy_crypto (zeros 3)) ((start (\<lambda>_. zeros 134) [])\<lparr>trace := []\<rparr>) of
     (Ret (Inr _), s') \<Rightarrow> True | _ \<Rightarrow> False" by code_simp
  with load_app_checks_digest [OF len, of toy_crypto "start (\<lambda>_. zeros 134) []"] show ?thesis
    by (auto split: prod.splits proc.splits sum.splits simp: zeros_def)
qed

lemma load_guard:
  assumes "length bin < 2 ^ 32" "trace (snd (run (load_app cr bin) (s\<lparr>trace := []\<rparr>))) = xs @ e # ys"
  shows "load_ok e xs"
proof -
  have "trace (s\<lparr>trace := []\<rparr>) = []" by simp
  from guarded_program.guard_holds [OF guarded_program.intro [OF certified.intro
      [OF load_app_wp [OF assms(1)]]] this assms(2)]
  show ?thesis by simp
qed

lemma load_polls:
  assumes "length bin < 2 ^ 32" "tr = trace (snd (run (load_app cr bin) (s\<lparr>trace := []\<rparr>)))"
  shows "polls (take n tr) \<le> 70"
proof (induction n)
  case (Suc n)
  show ?case
  proof (cases "n < length tr")
    case True
    have "load_ok (tr ! n) (take n tr)"
      using load_guard [OF assms(1)] id_take_nth_drop [OF True] assms(2) by metis
    with Suc True show ?thesis
      by (auto simp: take_Suc_conv_app_nth split: event.splits)
  qed (use Suc in simp)
qed simp

text \<open>
  Property C26. At every moment of a run of \<open>load_app\<close>, at most 70 FIONREAD questions have been
  asked, so the wait for the last responses is bounded; and a full frame is only written
  after the firmware answered the load request with status 0.
\<close>

theorem load_app_bounded_wait:
  assumes "length bin < 2 ^ 32"
    and "trace (snd (run (load_app cr bin) (s\<lparr>trace := []\<rparr>))) = xs @ Out p bs # ys"
    and "length bs = 129"
  shows "(\<exists>resp. In Device resp \<in> set xs \<and> resp ! 2 = 0)
    \<and> polls (take n (trace (snd (run (load_app cr bin) (s\<lparr>trace := []\<rparr>))))) \<le> 70"
  using load_guard [OF assms(1,2)] load_polls [OF assms(1) refl] assms(3) by simp

theorem load_app_bounded_wait_witness:
  "\<exists>xs bs ys. trace (snd (run (load_app toy_crypto (zeros 3)) ((start (\<lambda>_. zeros 134) [])\<lparr>trace := []\<rparr>)))
      = xs @ Out Device bs # ys \<and> (\<exists>resp. In Device resp \<in> set xs \<and> resp ! 2 = 0)"
proof -
  let ?t = "trace (snd (run (load_app toy_crypto (zeros 3)) ((start (\<lambda>_. zeros 134) [])\<lparr>trace := []\<rparr>)))"
  have len: "length (zeros 3) < 2 ^ 32" by simp
  have split: "?t = take 7 ?t @ Out Device (load_frame (zeros 3)) # drop 8 ?t" by code_simp
  have "length (load_frame (zeros 3)) = 129" by code_simp
  from load_app_bounded_wait [OF len split this] split show ?thesis by blast
qed

end
