(* ===== verification/HostLib.thy ===== *)
theory HostLib
  imports Tpm Loader
begin

text \<open>
  The rest of host/src/lib.rs: opening the serial line (\<open>Tkey::new\<close>), reading a status byte,
  the Argon2 parameters, the X25519 key exchange and \<open>auth_with_tkey_and_tpm\<close>, which every
  unlocking starts with. The \<open>Read\<close>, \<open>Write\<close> and \<open>Deref\<close> implementations of \<open>Tkey\<close> only
  forward to the file; reading and writing the peer \<open>Device\<close> stands for them.
\<close>

subsection \<open>Definitions\<close>

text \<open>Build-time configuration: \<open>env!\<close> and \<open>include_bytes!\<close>.\<close>

record config =
  luks_uuid :: string
  boot_device :: string
  encrypted_disk :: string
  salt :: bytes

definition tkey_new :: "(box_error + unit) proc" where
  "tkey_new =
    tryq BoxIo (sys (Tty (OpenTty ''/dev/ttyACM0''))) (\<lambda>_.
    tryq BoxIo (sys (Tty TermiosFromFd)) (\<lambda>_.
    tryq BoxIo (sys (Tty TcSetAttr)) (\<lambda>_.
    tryq BoxIo (sys (Tty FcntlSetFl)) (\<lambda>_.
    tryq BoxIo (sys (Tty TcGets2)) (\<lambda>_.
    tryq BoxIo (sys (Tty (TcSets2 62500))) (\<lambda>_.
    tryq BoxIo (sys (Tty TryClone)) (\<lambda>_.
    Ret (Inr ()))))))))"

definition check_status :: "(client_error + client_message) proc" where
  "check_status =
    tryq client_error_from_io (read_exact Device 1) (\<lambda>status_byte.
    Ret (client_message_try_from (status_byte ! 0)))"

text \<open>\<open>get_argon2\<close> and \<open>hash_password_into\<close>.\<close>

definition hash_password :: "crypto \<Rightarrow> config \<Rightarrow> bytes \<Rightarrow> bytes option" where
  "hash_password cr cfg pass = argon2id cr 13107 1 4 pass (salt cfg)"

lemma hash_length: "crypto_ok cr \<Longrightarrow> hash_password cr cfg p = Some h \<Longrightarrow> length h = 32"
  by (simp add: hash_password_def crypto_okD)

definition get_chacha20_cipher :: "crypto \<Rightarrow> bytes \<Rightarrow> (box_error + cipher \<times> bytes) proc" where
  "get_chacha20_cipher cr nonce =
    tryq BoxIo (read_exact Device 12) (\<lambda>encryption_nonce.
    tryq (\<lambda>_. BoxLib ''getrandom'') (sys (GetRandom 32)) (\<lambda>seed.
    let host_secret = x_secret cr (bytes_of seed);
        host_pub = x_public cr host_secret in
    tryq BoxIo (write_all Device host_pub) (\<lambda>_.
    tryq BoxIo (read_exact Device 32) (\<lambda>tkey_pub_bytes.
    let ss = x_dh cr host_secret tkey_pub_bytes in
    (case chacha cr ss encryption_nonce of
       None \<Rightarrow> Ret (Inl (BoxLib ''chacha20''))
     | Some stream \<Rightarrow> Ret (Inr (\<lparr>ks = stream, cpos = 0\<rparr>,
         challange nonce host_pub tkey_pub_bytes encryption_nonce)))))))"

text \<open>The host's reading of the TKey's verdict.\<close>

definition read_verdict :: "bool \<Rightarrow> (box_error + bool) proc" where
  "read_verdict trustworthy =
    bnd check_status (\<lambda>r. Ret (case r of
      Inr GoodSig \<Rightarrow> Inr trustworthy
    | Inl InvalidSig \<Rightarrow> Inr False
    | Inl MalformedSig \<Rightarrow> Inr False
    | Inl BadPubkey \<Rightarrow> Inr False
    | _ \<Rightarrow> Inl (BoxClient OutOfsync)))"

definition auth_with_tkey_and_tpm :: "crypto \<Rightarrow> bytes \<Rightarrow> (box_error + bool \<times> cipher) proc" where
  "auth_with_tkey_and_tpm cr bin =
    tryq id tkey_new (\<lambda>_.
    tryq id (load_app cr bin) (\<lambda>_.
    tryq BoxIo (read_exact Device 32) (\<lambda>nonce.
    tryq id (get_chacha20_cipher cr nonce) (\<lambda>(cipher, chal).
    tryq id (bnd (verify chal) (\<lambda>r.
      (case r of
         Inr sig \<Rightarrow>
           tryq BoxIo (write_all Device [host_message_u8 TpmSigned]) (\<lambda>_.
           tryq BoxIo (write_all Device sig) (\<lambda>_.
           Ret (Inr True)))
       | Inl e \<Rightarrow>
           tryq BoxIo (write_all Device [host_err_u8 TpmRefusedToSign]) (\<lambda>_.
           Ret (Inr False))))) (\<lambda>trustworthy.
    tryq id (read_verdict trustworthy) (\<lambda>trustworthy.
    Ret (Inr (trustworthy, cipher))))))))"

end
