(* ===== verification/Unlock.thy ===== *)
theory Unlock
  imports HostLib
begin

text \<open>
  The initramfs program (host/src/main.rs). \<open>host_main\<close> is \<open>main\<close>, \<open>tries_loop\<close> its
  \<open>for tries in 1..=3\<close>, \<open>ask_for_password\<close> and \<open>decrypt\<close> the functions of those names. The
  two functions borrow the cipher mutably and return it advanced also when they fail, so
  their errors carry it. \<open>ask_for_password\<close> calls itself after a short passphrase; its
  fuel bounds how often the prompt is repeated in one try.
\<close>

subsection \<open>Definitions\<close>

definition prompt_trusted :: string where
  "prompt_trusted = ''input passphrase ALWAYS be sure tkey led is green before doing so.''"

definition prompt_untrusted :: string where
  "prompt_untrusted =
    ''tpm REFUSED to unseal, system might be tampered with. Input password at your own risk.''"

fun ask_for_password :: "crypto \<Rightarrow> config \<Rightarrow> nat \<Rightarrow> bool \<Rightarrow> cipher \<Rightarrow>
    ((client_error \<times> cipher) + cipher) proc" where
  "ask_for_password cr cfg 0 trustworthy c = Halt OutOfFuel"
| "ask_for_password cr cfg (Suc fuel) trustworthy c =
    (let prompt = (if trustworthy then prompt_trusted else prompt_untrusted) in
    tryq (\<lambda>e. (client_error_from_io e, c))
      (sys (Output ''/usr/bin/systemd-ask-password'' [prompt])) (\<lambda>pass.
    let passphrase_bytes = bytes_of pass;
        pass_len = length passphrase_bytes in
    if pass_len < 9 then
      bnd (effect (Zeroize ''passphrase_bytes'')) (\<lambda>_.
      ask_for_password cr cfg fuel trustworthy c)
    else
      (let actual_pass_len = pass_len - 1 in
      bnd (effect (Zeroize ''pass_len'')) (\<lambda>_.
      (case hash_password cr cfg (take actual_pass_len passphrase_bytes) of
         None \<Rightarrow> Ret (Inl (ClientUnknownError, c))
       | Some hashed_pass \<Rightarrow>
           bnd (effect (Zeroize ''passphrase_bytes'')) (\<lambda>_.
           bnd (apply_keystream c hashed_pass) (\<lambda>(encrypted_hashed_pass, c).
           bnd (effect (Zeroize ''hashed_pass'')) (\<lambda>_.
           tryq (\<lambda>e. (client_error_from_io e, c)) (write_all Device encrypted_hashed_pass) (\<lambda>_.
           bnd (effect (Zeroize ''actual_pass_len'')) (\<lambda>_.
           bnd check_status (\<lambda>r. Ret (case r of
             Inr GoodPass \<Rightarrow> Inr c
           | Inl e \<Rightarrow> Inl (e, c)
           | _ \<Rightarrow> Inl (OutOfsync, c)))))))))))))"

definition cryptsetup_open_args :: "config \<Rightarrow> string list" where
  "cryptsetup_open_args cfg =
    [''open'', ''--key-file'', ''-'', ''--keyfile-size'', ''32'', ''--batch-mode'',
     encrypted_disk cfg, luks_uuid cfg]"

definition decrypt :: "config \<Rightarrow> cipher \<Rightarrow> ((host_err \<times> cipher) + cipher) proc" where
  "decrypt cfg c =
    tryq (\<lambda>e. (host_err_from_io e, c)) (read_exact Device 32) (\<lambda>keyfile.
    tryq (\<lambda>e. (host_err_from_io e, c))
      (sys (Child (Spawn ''/usr/bin/cryptsetup'' (cryptsetup_open_args cfg)))) (\<lambda>_.
    bnd (ask (Child TakeStdin)) (\<lambda>stdin.
    if stdin = ANone then Ret (Inl (PipeError, c))
    else
    bnd (apply_keystream c keyfile) (\<lambda>(keyfile, c).
    let from_io = (\<lambda>e. (host_err_from_io e, c)) in
    bnd (sys (Child (ChildWrite keyfile))) (\<lambda>w.
    bnd (effect (Zeroize ''keyfile'')) (\<lambda>_.
    (case w of
       Inl e \<Rightarrow>
         tryq from_io (write_all Device [host_err_u8 DecryptionError]) (\<lambda>_.
         Ret (Inl (from_io e)))
     | Inr _ \<Rightarrow>
         bnd (effect (Child DropStdin)) (\<lambda>_.
         tryq from_io (sys (Child ChildWait)) (\<lambda>status.
         (case code_of status of
            None \<Rightarrow>
              tryq from_io (write_all Device [host_err_u8 DecryptionError]) (\<lambda>_.
              Ret (Inl (CryptsetupKilled, c)))
          | Some status_code \<Rightarrow>
              if status_code = 0 then
                bnd (write_all Device [host_message_u8 DecryptionSuccess]) (\<lambda>_.
                Ret (Inr c))
              else
                tryq from_io (write_all Device [host_err_u8 DecryptionError]) (\<lambda>_.
                Ret (Inl (CryptsetupErr, c)))))))))))))"

function tries_loop :: "crypto \<Rightarrow> config \<Rightarrow> nat \<Rightarrow> bool \<Rightarrow> nat \<Rightarrow> cipher \<Rightarrow>
    (box_error + exit_code) proc" where
  "tries_loop cr cfg fuel trustworthy tries c =
    (if 3 < tries then Ret (Inr Failure)
     else
      bnd check_status (\<lambda>status.
      if status \<noteq> Inr Ready4pass then Ret (Inl (BoxClient OutOfsync))
      else
      bnd (ask_for_password cr cfg fuel trustworthy c) (\<lambda>r.
      (case r of
         Inl (e, c) \<Rightarrow>
           if e = PassLen \<or> e = Blake2 then tries_loop cr cfg fuel trustworthy (tries + 1) c
           else Ret (Inl (BoxClient e))
       | Inr c \<Rightarrow>
           bnd (decrypt cfg c) (\<lambda>d.
           (case d of
              Inr _ \<Rightarrow> Ret (Inr Success)
            | Inl (e, c) \<Rightarrow>
                if e = CryptsetupKilled \<or> e = CryptsetupErr
                then tries_loop cr cfg fuel trustworthy (tries + 1) c
                else Ret (Inl (BoxHost e))))))))"
  by pat_completeness auto
termination
  by (relation "measure (\<lambda>(cr, cfg, fuel, trustworthy, tries, c). 4 - tries)") auto

declare tries_loop.simps [simp del]

definition host_main :: "crypto \<Rightarrow> config \<Rightarrow> nat \<Rightarrow> (box_error + exit_code) proc" where
  "host_main cr cfg fuel =
    tryq BoxIo (sys (CreateDirAll ''/mnt/boot'')) (\<lambda>_.
    tryq BoxIo (sys (Status ''/usr/bin/mount'' [boot_device cfg, ''/mnt/boot''])) (\<lambda>mount.
    if \<not> bool_of mount then
      Ret (Inl (BoxStr ''failed to mount, auto detection of boot device was wrong.''))
    else
    tryq BoxIo (sys (ReadFile ''/mnt/boot/client'')) (\<lambda>bin.
    tryq id (auth_with_tkey_and_tpm cr (bytes_of bin)) (\<lambda>(trustworthy, cipher).
    tries_loop cr cfg fuel trustworthy 1 cipher))))"

end
