(* ===== verification/Enroll.thy ===== *)
theory Enroll
  imports HostLib
begin

text \<open>
  Enrolling a keyslot (host/src/bin/enroll.rs): \<open>enroll_main\<close> is \<open>main\<close>,
  \<open>enroll_pass_enroll\<close> and \<open>enroll_enroll\<close> its functions \<open>pass_enroll\<close> and \<open>enroll\<close>.
  \<open>pass_enroll\<close> calls itself until both entries agree and are long enough; its fuel bounds
  how often. The cipher is returned advanced; an error ends the program, so errors do not
  carry it.
\<close>

subsection \<open>Definitions\<close>

fun enroll_pass_enroll :: "crypto \<Rightarrow> config \<Rightarrow> nat \<Rightarrow> cipher \<Rightarrow> (box_error + cipher) proc" where
  "enroll_pass_enroll cr cfg 0 c = Halt OutOfFuel"
| "enroll_pass_enroll cr cfg (Suc fuel) c =
    tryq BoxIo (sys PromptPassword) (\<lambda>pass1.
    tryq BoxIo (sys PromptPassword) (\<lambda>pass2.
    if bytes_of pass1 \<noteq> bytes_of pass2 then enroll_pass_enroll cr cfg fuel c
    else
    (let pass_len = length (bytes_of pass1) in
    if pass_len < 8 then
      bnd (effect (Zeroize ''pass_len'')) (\<lambda>_. enroll_pass_enroll cr cfg fuel c)
    else
    (case hash_password cr cfg (bytes_of pass1) of
       None \<Rightarrow> Ret (Inl (BoxLib ''argon2''))
     | Some password_hash \<Rightarrow>
         bnd (apply_keystream c password_hash) (\<lambda>(password_hash, c).
         tryq BoxIo (write_all Device password_hash) (\<lambda>_.
         bnd (effect (Zeroize ''password_hash'')) (\<lambda>_.
         bnd (effect (Zeroize ''pass_len'')) (\<lambda>_.
         bnd check_status (\<lambda>r. Ret (case r of
           Inr GoodPass \<Rightarrow> Inr c
         | Inl e \<Rightarrow> Inl (BoxClient e)
         | _ \<Rightarrow> Inl (BoxClient OutOfsync)))))))))))"

definition luks_add_key_args :: "config \<Rightarrow> nat \<Rightarrow> string list" where
  "luks_add_key_args cfg current_pass_len =
    [''luksAddKey'', encrypted_disk cfg, ''--batch-mode'', ''--key-file=-'', ''--keyfile-size'',
     to_string current_pass_len, ''--new-keyfile=-'', ''--new-keyfile-size=32'', ''--iter-time=1'']"

definition enroll_enroll :: "config \<Rightarrow> cipher \<Rightarrow> (host_err + unit) proc" where
  "enroll_enroll cfg c =
    tryq host_err_from_io (sys PromptPassword) (\<lambda>pass.
    let current_pass = bytes_of pass in
    tryq host_err_from_io
      (sys (Child (Spawn ''/usr/sbin/cryptsetup'' (luks_add_key_args cfg (length current_pass))))) (\<lambda>_.
    bnd (ask (Child TakeStdin)) (\<lambda>stdin.
    if stdin = ANone then Ret (Inl PipeError)
    else
    tryq host_err_from_io (sys (Child (ChildWrite current_pass))) (\<lambda>_.
    bnd (effect (Zeroize ''current_pass'')) (\<lambda>_.
    tryq host_err_from_io (read_exact Device 32) (\<lambda>encrypted_keyfile.
    bnd (apply_keystream c encrypted_keyfile) (\<lambda>(keyfile, c).
    bnd (effect (Zeroize ''encrypted_keyfile'')) (\<lambda>_.
    tryq host_err_from_io (sys (Child (ChildWrite keyfile))) (\<lambda>_.
    bnd (effect (Zeroize ''keyfile'')) (\<lambda>_.
    tryq host_err_from_io (sys (Child ChildWait)) (\<lambda>status.
    (case code_of status of
       None \<Rightarrow> Ret (Inl CryptsetupKilled)
     | Some status_code \<Rightarrow>
         if status_code = 0 then
           tryq host_err_from_io (write_all Device [host_message_u8 DecryptionSuccess]) (\<lambda>_.
           Ret (Inr ()))
         else
           tryq host_err_from_io (write_all Device [host_err_u8 DecryptionError]) (\<lambda>_.
           Ret (Inl CryptsetupErr))))))))))))))"

text \<open>What every program does before it sends a passphrase: wait for \<open>Ready4pass\<close>.\<close>

definition expect_ready :: "(box_error + unit) proc" where
  "expect_ready = bnd check_status (\<lambda>r. Ret (case r of
     Inr Ready4pass \<Rightarrow> Inr ()
   | Inl e \<Rightarrow> Inl (BoxClient e)
   | _ \<Rightarrow> Inl (BoxClient OutOfsync)))"

definition enroll_main :: "crypto \<Rightarrow> config \<Rightarrow> bytes \<Rightarrow> nat \<Rightarrow> (box_error + exit_code) proc" where
  "enroll_main cr cfg bin fuel =
    (if length bin < 1000 then Halt Panic
     else
     tryq id (auth_with_tkey_and_tpm cr bin) (\<lambda>(trustworthy, cipher).
     tryq id expect_ready (\<lambda>_.
     tryq id (enroll_pass_enroll cr cfg fuel cipher) (\<lambda>cipher.
     bnd (enroll_enroll cfg cipher) (\<lambda>r. Ret (case r of
       Inr _ \<Rightarrow> Inr Success
     | Inl CryptsetupErr \<Rightarrow> Inr Failure
     | Inl e \<Rightarrow> Inl (BoxHost e)))))))"

end
