(* ===== verification/Qubes.thy ===== *)
theory Qubes
  imports Enroll
begin

text \<open>
  Enrolling on Qubes: qubes_enroll in a disposable VM (host/src/bin/qubes_enroll.rs) and
  verify in dom0 (host/src/bin/verify.rs), which owns the TPM and the disk. They talk over
  the stdin and stdout of qrexec: the VM's peer is \<open>Dom0\<close>, dom0's peer is \<open>Host\<close>.
\<close>

subsection \<open>qubes\_enroll\<close>

fun qubes_pass_enroll :: "crypto \<Rightarrow> config \<Rightarrow> nat \<Rightarrow> cipher \<Rightarrow> (box_error + cipher) proc" where
  "qubes_pass_enroll cr cfg 0 c = Halt OutOfFuel"
| "qubes_pass_enroll cr cfg (Suc fuel) c =
    tryq BoxIo (sys PromptPassword) (\<lambda>pass1.
    tryq BoxIo (sys PromptPassword) (\<lambda>pass2.
    if bytes_of pass1 \<noteq> bytes_of pass2 then qubes_pass_enroll cr cfg fuel c
    else
    (let pass_len = length (bytes_of pass1) in
    if 255 < pass_len \<or> pass_len < 8 then
      bnd (effect (Zeroize ''pass_len'')) (\<lambda>_. qubes_pass_enroll cr cfg fuel c)
    else
    (case hash_password cr cfg (bytes_of pass1) of
       None \<Rightarrow> Ret (Inl (BoxLib ''argon2''))
     | Some hashed_pass \<Rightarrow>
         bnd (apply_keystream c hashed_pass) (\<lambda>(hashed_pass, c).
         tryq BoxIo (write_all Device hashed_pass) (\<lambda>_.
         bnd (effect (Zeroize ''hashed_pass'')) (\<lambda>_.
         bnd check_status (\<lambda>r. Ret (case r of
           Inr GoodPass \<Rightarrow> Inr c
         | Inl e \<Rightarrow> Inl (BoxClient e)
         | _ \<Rightarrow> Inl (BoxClient OutOfsync))))))))))"

text \<open>The command line: \<open>Some None\<close> without \<open>--kill-slot\<close>, \<open>None\<close> for an error.\<close>

definition slot_arg :: "string list \<Rightarrow> box_error + byte option" where
  "slot_arg argv =
    (let kill_slot = (length argv = 3 \<and> argv ! 1 = ''--kill-slot'') in
    if kill_slot then
      (case parse_u8 (argv ! 2) of
         None \<Rightarrow> Inl (BoxStr ''ERR:didn't get a integer from argv'')
       | Some num \<Rightarrow>
           if num \<ge> 32 then Inl (BoxStr ''not a valid luks2 keyslot, number > 32.'')
           else Inr (Some num))
    else Inr None)"

text \<open>Passing on the TPM's answer, and judging the TKey's.\<close>

definition forward_signature :: "bool \<Rightarrow> (box_error + unit) proc" where
  "forward_signature kill_slot =
    tryq BoxIo (read_exact Dom0 1) (\<lambda>b.
    (case host_message_try_from (b ! 0) of
       Inr TpmSigned \<Rightarrow>
         tryq BoxIo (read_exact Dom0 64) (\<lambda>sig_bytes.
         tryq BoxIo (write_all Device [host_message_u8 TpmSigned]) (\<lambda>_.
         tryq BoxIo (write_all Device sig_bytes) (\<lambda>_.
         Ret (Inr ()))))
     | Inl TpmRefusedToSign \<Rightarrow>
         if kill_slot then Ret (Inl (BoxStr
           ''refusing to continue, current binary isn't enrolled with TPM. run qubes_enrollpt2''))
         else tryq BoxIo (write_all Device [host_err_u8 TpmRefusedToSign]) (\<lambda>_. Ret (Inr ()))
     | _ \<Rightarrow> Ret (Inl (BoxClient OutOfsync))))"

definition expect_good_sig :: "(box_error + unit) proc" where
  "expect_good_sig = bnd check_status (\<lambda>r. Ret (case r of
     Inr GoodSig \<Rightarrow> Inr ()
   | Inr _ \<Rightarrow> Inl (BoxStr
       ''tkey and host are out of sync (but sig is fine?) must restart app.'')
   | Inl InvalidSig \<Rightarrow> Inr ()
   | Inl e \<Rightarrow> Inl (BoxClient e)))"

definition send_enrollment :: "cipher \<Rightarrow> bytes \<Rightarrow> (box_error + unit) proc" where
  "send_enrollment c encrypted_keyfile =
    tryq BoxIo (sys PromptPassword) (\<lambda>pass.
    let current_passphrase = bytes_of pass in
    tryq BoxIo (write_all Dom0 [of_nat (length current_passphrase)]) (\<lambda>_.
    tryq BoxIo (write_all Dom0 current_passphrase) (\<lambda>_.
    bnd (apply_keystream c encrypted_keyfile) (\<lambda>(keyfile, c).
    tryq BoxIo (write_all Dom0 keyfile) (\<lambda>_.
    tryq BoxIo (sys (Flush Dom0)) (\<lambda>_.
    tryq BoxIo (read_exact Dom0 1) (\<lambda>b.
    (case host_message_try_from (b ! 0) of
       Inr DecryptionSuccess \<Rightarrow> Ret (Inr ())
     | Inl e \<Rightarrow> Ret (Inl (BoxHost e))
     | _ \<Rightarrow> Ret (Inl (BoxHost HostUnknownError))))))))))"

definition send_slot :: "byte option \<Rightarrow> (box_error + unit) proc" where
  "send_slot slot_to_kill =
    tryq BoxIo (write_all Dom0 [case slot_to_kill of None \<Rightarrow> 0x91 | Some slot \<Rightarrow> slot]) (\<lambda>_.
    tryq BoxIo (sys (Flush Dom0)) (\<lambda>_.
    Ret (Inr ())))"

definition qubes_run ::
  "crypto \<Rightarrow> config \<Rightarrow> bytes \<Rightarrow> nat \<Rightarrow> string list \<Rightarrow> (box_error + exit_code) proc" where
  "qubes_run cr cfg bin fuel argv =
    (case slot_arg argv of
       Inl e \<Rightarrow> Ret (Inl e)
     | Inr slot_to_kill \<Rightarrow>
    tryq id tkey_new (\<lambda>_.
    if length bin < 1000 then Ret (Inl (BoxStr ''did you recompile before passing onto dispVM?''))
    else
    tryq id (load_app cr bin) (\<lambda>_.
    tryq BoxIo (read_exact Device 32) (\<lambda>nonce.
    tryq BoxIo (sys (Child (Spawn ''/usr/bin/qrexec-client-vm'' [''dom0'', ''qubes.TPMProxy'']))) (\<lambda>_.
    bnd (ask (Child TakeStdin)) (\<lambda>stdin.
    if stdin = ANone then Halt Panic
    else
    bnd (ask (Child TakeStdout)) (\<lambda>stdout.
    if stdout = ANone then Halt Panic
    else
    tryq id (get_chacha20_cipher cr nonce) (\<lambda>(cipher, chal).
    tryq BoxIo (write_all Dom0 chal) (\<lambda>_.
    tryq BoxIo (sys (Flush Dom0)) (\<lambda>_.
    tryq id (forward_signature (slot_to_kill \<noteq> None)) (\<lambda>_.
    tryq id expect_good_sig (\<lambda>_.
    tryq id expect_ready (\<lambda>_.
    tryq id (qubes_pass_enroll cr cfg fuel cipher) (\<lambda>cipher.
    tryq BoxIo (read_exact Device 32) (\<lambda>encrypted_keyfile.
    tryq id (send_enrollment cipher encrypted_keyfile) (\<lambda>_.
    tryq id (send_slot slot_to_kill) (\<lambda>_.
    tryq BoxIo (sys (Child ChildWait)) (\<lambda>code.
    if code_of code = Some 0 then
      tryq BoxIo (write_all Device [host_message_u8 DecryptionSuccess]) (\<lambda>_.
      Ret (Inr Success))
    else Ret (Inl (BoxStr
      ''failed to  enroll, dom0 indicated an error. was password correct?''))))))))))))))))))))"

definition qubes_main ::
  "crypto \<Rightarrow> config \<Rightarrow> bytes \<Rightarrow> nat \<Rightarrow> string list \<Rightarrow> (box_error + exit_code) proc" where
  "qubes_main cr cfg bin fuel argv =
    bnd (qubes_run cr cfg bin fuel argv) (\<lambda>r.
    tryq BoxIo (sys ReadLine) (\<lambda>_.
    Ret r))"

subsection \<open>verify in dom0\<close>

definition luks_kill_slot_args :: "config \<Rightarrow> byte \<Rightarrow> string list" where
  "luks_kill_slot_args cfg slot =
    [''luksKillSlot'', ''--batch-mode'', ''--verify-passphrase'', ''--key-file=-'',
     ''--keyfile-size=32'', encrypted_disk cfg, to_string (unat slot)]"

definition verify_log :: string where
  "verify_log = ''/root/tkey-files/verify.log''"

definition dom0_kill_slot :: "config \<Rightarrow> bytes \<Rightarrow> byte \<Rightarrow> (host_err + unit) proc" where
  "dom0_kill_slot cfg keyfile slot =
    tryq host_err_from_io
      (sys (Child (Spawn ''/usr/sbin/cryptsetup'' (luks_kill_slot_args cfg slot)))) (\<lambda>_.
    bnd (ask (Child TakeStdin)) (\<lambda>stdin.
    if stdin = ANone then Ret (Inl PipeError)
    else
    tryq host_err_from_io (sys (Child (ChildWrite keyfile))) (\<lambda>_.
    tryq host_err_from_io (sys (Child ChildWait)) (\<lambda>status.
    if code_of status = Some 0 then
      tryq host_err_from_io (sys (LogCreate verify_log)) (\<lambda>_.
      tryq host_err_from_io
        (sys (LogWrite (''successfully killed slot '' @ to_string (unat slot) @ ''!!''))) (\<lambda>_.
      Ret (Inr ())))
    else Ret (Inl CryptsetupKilled)))))"

definition dom0_enroll :: "config \<Rightarrow> (host_err + unit) proc" where
  "dom0_enroll cfg =
    tryq host_err_from_io (read_exact Host 1) (\<lambda>current_pass_bytes_len.
    tryq host_err_from_io (read_exact Host (unat (current_pass_bytes_len ! 0))) (\<lambda>current_pass.
    if \<not> utf8_valid current_pass then Ret (Inl StringParseError)
    else
    tryq host_err_from_io
      (sys (Child (Spawn ''/usr/sbin/cryptsetup'' (luks_add_key_args cfg (length current_pass))))) (\<lambda>_.
    bnd (ask (Child TakeStdin)) (\<lambda>stdin.
    if stdin = ANone then Ret (Inl PipeError)
    else
    tryq host_err_from_io (sys (Child (ChildWrite current_pass))) (\<lambda>_.
    tryq host_err_from_io (read_exact Host 32) (\<lambda>keyfile.
    tryq host_err_from_io (sys (Child (ChildWrite keyfile))) (\<lambda>_.
    tryq host_err_from_io (sys (Child ChildWait)) (\<lambda>status.
    (case code_of status of
       None \<Rightarrow> Ret (Inl CryptsetupKilled)
     | Some status_code \<Rightarrow>
         if status_code = 0 then
           tryq host_err_from_io (write_all Host [host_message_u8 DecryptionSuccess]) (\<lambda>_.
           tryq host_err_from_io (sys (Flush Host)) (\<lambda>_.
           tryq host_err_from_io (read_exact Host 1) (\<lambda>num.
           if num ! 0 \<noteq> 0x91 then dom0_kill_slot cfg keyfile (num ! 0)
           else Ret (Inr ()))))
         else Ret (Inl CryptsetupErr))))))))))"

definition dom0_main ::
  "(io_error \<Rightarrow> string) \<Rightarrow> (string \<Rightarrow> string) \<Rightarrow> config \<Rightarrow> (box_error + exit_code) proc" where
  "dom0_main io_fmt lib_fmt cfg =
    tryq BoxIo (read_exact Host 108) (\<lambda>chal.
    tryq BoxIo (sys (LogCreate verify_log)) (\<lambda>_.
    tryq id (bnd (verify chal) (\<lambda>r.
      (case r of
         Inr s \<Rightarrow>
           tryq BoxIo (write_all Host [host_message_u8 TpmSigned]) (\<lambda>_.
           tryq BoxIo (write_all Host s) (\<lambda>_.
           tryq BoxIo (sys (Flush Host)) (\<lambda>_.
           Ret (Inr ()))))
       | Inl e \<Rightarrow>
           tryq BoxIo (sys (LogWrite ''tpm refused to unseal'')) (\<lambda>_.
           tryq BoxIo (sys (LogWrite (box_error_fmt io_fmt lib_fmt e))) (\<lambda>_.
           tryq BoxIo (sys (LogWrite ''moving on this is only meant to happen if you're updating.'')) (\<lambda>_.
           tryq BoxIo (write_all Host [host_err_u8 TpmRefusedToSign]) (\<lambda>_.
           tryq BoxIo (sys (Flush Host)) (\<lambda>_.
           Ret (Inr ())))))))))
    (\<lambda>_.
    tryq BoxHost (dom0_enroll cfg) (\<lambda>_.
    tryq BoxIo (sys (LogWrite ''success!'')) (\<lambda>_.
    Ret (Inr Success))))))"

end
