(* ===== verification/HostSafety.thy ===== *)
theory HostSafety
  imports Unlock Qubes History
begin

text \<open>
  Safety of the programs on the host's side against every TKey, TPM, user and disk: one guard
  (\<open>host_ok\<close>) on the events of the unlocking program, both enrolling programs and
  \<open>auth_with_tkey_and_tpm\<close> they share, proved by weakest preconditions.
\<close>

subsection \<open>The guard\<close>

text \<open>
  The ticket of the session a history belongs to: the last three messages read are the
  nonce, the encryption nonce and the TKey's public key, and the last random bytes drawn are
  the seed of the host's key.
\<close>

definition session_ticket :: "crypto \<Rightarrow> event list \<Rightarrow> bytes" where
  "session_ticket cr h = (case (rev (received h), rev (entropy h)) of
     (tp # en # nonce # _, seed # _) \<Rightarrow> challange nonce (x_public cr (x_secret cr seed)) tp en
   | _ \<Rightarrow> [])"

text \<open>The TPM made this signature, under its policy, for the ticket of this session.\<close>

definition signed_session :: "crypto \<Rightarrow> bytes \<Rightarrow> event list \<Rightarrow> bool" where
  "signed_session cr sig h \<longleftrightarrow> (\<exists>digest r s. Got (Tpm (Sign digest)) (ASig r s) \<in> set h \<and>
     pack_sig r s = Some sig \<and> policy_bound (session_ticket cr h) digest h)"

text \<open>
  The session is trustworthy: such a signature was sent to the TKey, and the TKey's very
  next message was \<open>GoodSig\<close>.
\<close>

definition approved :: "crypto \<Rightarrow> event list \<Rightarrow> bool" where
  "approved cr h \<longleftrightarrow> (\<exists>g sig es. h = g @ [Out Device [0x97], Out Device sig, In Device [0x20]] @ es \<and>
     signed_session cr sig g)"

definition host_ok :: "crypto \<Rightarrow> event \<Rightarrow> event list \<Rightarrow> bool" where
  "host_ok cr e h = (case e of
     Got a x \<Rightarrow> (case a of
       Tpm c \<Rightarrow> (case c of Sign digest \<Rightarrow> policy_bound (session_ticket cr h) digest h | _ \<Rightarrow> True)
     | Output p as \<Rightarrow> guesses h < 3 \<and> (as = [prompt_trusted] \<longrightarrow> approved cr h)
     | _ \<Rightarrow> True)
   | Did a \<Rightarrow> (case a of Keystream p n \<Rightarrow> p = keystream_used h | _ \<Rightarrow> True)
   | Out p bs \<Rightarrow> p = Device \<and> bs = [0x99] \<longrightarrow> exits h \<noteq> [] \<and> last (exits h) = Some 0
   | _ \<Rightarrow> True)"

lemma host_ok_simps [simp]:
  "host_ok cr (Got (Tpm (Sign digest)) x) h \<longleftrightarrow> policy_bound (session_ticket cr h) digest h"
  "host_ok cr (Got (Output prog as) x) h \<longleftrightarrow>
     guesses h < 3 \<and> (as = [prompt_trusted] \<longrightarrow> approved cr h)"
  "host_ok cr (Did (Keystream i n)) h \<longleftrightarrow> i = keystream_used h"
  "host_ok cr (Out p bs) h \<longleftrightarrow>
     (p = Device \<and> bs = [0x99] \<longrightarrow> exits h \<noteq> [] \<and> last (exits h) = Some 0)"
  "host_ok cr (In p bs) h" "host_ok cr (InFail p) h"
  by (simp_all add: host_ok_def)

lemma host_ok_plain [simp]:
  "host_ok cr (Got (Tty y) x) h" "host_ok cr (Got Fionread x) h" "host_ok cr (Got (GetRandom n) x) h"
  "host_ok cr (Got (CreateDirAll d) x) h" "host_ok cr (Got (Status d as) x) h"
  "host_ok cr (Got (ReadFile d) x) h" "host_ok cr (Got PromptPassword x) h"
  "host_ok cr (Got (Child c) x) h" "host_ok cr (Got (Flush q) x) h" "host_ok cr (Got ReadLine x) h"
  "host_ok cr (Did (Zeroize v)) h" "host_ok cr (Did (SleepMillis n)) h" "host_ok cr (Did (Child c)) h"
  "host_ok cr (Did (Tpm tc)) h"
  "host_ok cr (Got (Tpm (NewContext d)) x) h" "host_ok cr (Got (Tpm StartAuthSession) x) h"
  "host_ok cr (Got (Tpm (BuildPcrs ns)) x) h" "host_ok cr (Got (Tpm ToPolicySession) x) h"
  "host_ok cr (Got (Tpm (PolicyPcr ns)) x) h" "host_ok cr (Got (Tpm (ToHandle w)) x) h"
  "host_ok cr (Got (Tpm (TrFromPublic w)) x) h" "host_ok cr (Got (Tpm (ToMaxBuffer b)) x) h"
  "host_ok cr (Got (Tpm (HashSha256 b)) x) h"
  by (simp_all add: host_ok_def)

abbreviation host_wp ::
  "crypto \<Rightarrow> 'a proc \<Rightarrow> ('a \<Rightarrow> event list \<Rightarrow> bool) \<Rightarrow> event list \<Rightarrow> bool" where
  "host_wp cr \<equiv> wp (guarded (\<lambda>_. True) (host_ok cr)) (\<lambda>_ _. True)"

subsection \<open>Quiet extensions\<close>

text \<open>
  \<open>quiet g h\<close>: from \<open>g\<close> to \<open>h\<close> nothing happened that the projections count, apart from
  messages read.
\<close>

definition quiet :: "event list \<Rightarrow> event list \<Rightarrow> bool" where
  "quiet g h \<longleftrightarrow> (\<exists>es. h = g @ es \<and> keystream_used es = 0 \<and> exits es = [] \<and> entropy es = [] \<and>
     guesses es = 0)"

lemma quiet_refl [simp]: "quiet g g"
  by (simp add: quiet_def)

lemma quiet_append [simp]:
  "quiet g h \<Longrightarrow> quiet g (h @ es) \<longleftrightarrow> keystream_used es = 0 \<and> exits es = [] \<and> entropy es = [] \<and>
     guesses es = 0"
  by (auto simp: quiet_def)

lemma quietD:
  assumes "quiet g h"
  shows "keystream_used h = keystream_used g" "exits h = exits g" "entropy h = entropy g"
    "guesses h = guesses g"
  using assms by (auto simp: quiet_def)

lemma tkey_new_wp: "quiet g h \<Longrightarrow> host_wp cr tkey_new (\<lambda>r h'. quiet g h') h"
  by (auto simp: tkey_new_def wp_simps)

lemma poll_ready_quiet:
  "quiet g h \<Longrightarrow> host_wp cr (poll_ready expected num n) (\<lambda>r h'. quiet g h') h"
proof (induction "70 - n" arbitrary: n num h)
  case 0
  then show ?case by (subst poll_ready.simps) simp
next
  case (Suc m)
  have less: "n < 70" "m = 70 - Suc n" using Suc.hyps(2) by simp_all
  show ?case
    by (subst poll_ready.simps)
       (use less Suc.prems in \<open>auto simp: wp_simps intro!: Suc.hyps(1)\<close>)
qed

lemma finish_load_quiet:
  assumes "quiet g h"
  shows "host_wp cr (finish_load cr' ntotal hashed) (\<lambda>r h'. quiet g h') h"
  unfolding finish_load_def Let_def wp_tryq
  by (rule wp_mono [OF poll_ready_quiet [OF assms]]) (auto simp: wp_simps split: sum.splits)

lemma load_frame_ne: "length c \<le> 127 \<Longrightarrow> load_frame c \<noteq> [b]"
  by (auto simp: load_frame_eq dest: arg_cong [of _ _ length])

lemma send_frames_quiet:
  "quiet g h \<Longrightarrow> \<forall>c \<in> set cs. length c \<le> 127 \<Longrightarrow>
   host_wp cr (send_frames cr' ntotal hashed i cs) (\<lambda>r h'. quiet g h') h"
proof (induction cs arbitrary: i hashed h)
  case (Cons c cs)
  then show ?case by (auto simp: wp_simps load_frame_ne intro!: finish_load_quiet)
qed simp

lemma load_app_quiet:
  "quiet g h \<Longrightarrow> host_wp cr (load_app cr bin) (\<lambda>r h'. quiet g h') h"
proof -
  assume q: "quiet g h"
  have ne: "to_le_bytes w \<noteq> [b]" "zeros 32 \<noteq> [b]" "zeros 90 \<noteq> [b]" for w b
    by (auto simp: to_le_bytes_def zeros_def dest: arg_cong [of _ _ length])
  have "\<forall>c \<in> set (chunks 127 bin). length c \<le> 127" using length_chunk by blast
  with q ne show ?thesis
    by (auto simp: load_app_def wp_simps frame_header_eq intro!: send_frames_quiet)
qed

subsection \<open>auth\_with\_tkey\_and\_tpm\<close>

lemma wp_check_status [wp_simps]:
  "wp M H check_status Q q \<longleftrightarrow>
   (\<forall>b. allows M q (In Device [b]) (Q (client_message_try_from b))) \<and>
   allows M q (InFail Device) (Q (Inl (ClientIOError OsError)))"
  by (auto simp: check_status_def wp_simps client_error_from_io_def Ex_list_of_length length_Suc_conv)

lemma client_status_iff:
  "client_message_try_from b = Inr m \<longleftrightarrow> b = client_message_u8 m"
  "client_message_try_from b = Inl InvalidSig \<longleftrightarrow> b = 0x13"
  "client_message_try_from b = Inl MalformedSig \<longleftrightarrow> b = 0x12"
  "client_message_try_from b = Inl BadPubkey \<longleftrightarrow> b = 0x14"
  by (rule client_link.dec_iff) (auto simp: client_message_try_from_def)

text \<open>
  A session has been set up: its three messages are the last ones read before \<open>msgs\<close>, one
  seed was drawn, and \<open>c\<close> has the keystream both sides derive.
\<close>

definition session_cipher :: "crypto \<Rightarrow> cipher \<Rightarrow> bytes list \<Rightarrow> event list \<Rightarrow> bool" where
  "session_cipher cr c msgs h \<longleftrightarrow> (\<exists>pre nonce en tp seed.
     received h = pre @ [nonce, en, tp] @ msgs \<and> entropy h = [seed] \<and>
     length nonce = 32 \<and> length en = 12 \<and> length tp = 32 \<and> length seed = 32 \<and>
     chacha cr (x_dh cr (x_secret cr seed) tp) en = Some (ks c))"

definition untouched :: "event list \<Rightarrow> bool" where
  "untouched h \<longleftrightarrow> keystream_used h = 0 \<and> exits h = [] \<and> guesses h = 0"

lemma get_chacha20_cipher_wp:
  assumes "received h = pre @ [nonce]" "entropy h = []" "untouched h" "length nonce = 32"
    "\<forall>seed. length (x_public cr seed) = 32"
  shows "host_wp cr (get_chacha20_cipher cr nonce) (\<lambda>r h'. case r of
     Inr (c, chal) \<Rightarrow> session_cipher cr c [] h' \<and> cpos c = 0 \<and> chal = session_ticket cr h' \<and> untouched h'
   | Inl _ \<Rightarrow> exits h' = []) h"
proof -
  have ne: "x_public cr seed \<noteq> [b]" for seed b
    using assms(5) by (auto dest!: spec [of _ seed])
  show ?thesis
    using assms(1-4)
    by (auto simp: get_chacha20_cipher_def wp_simps ne Let_def session_cipher_def untouched_def
        session_ticket_def split: option.splits)
qed

lemma session_ticket_Tpm [simp]:
  "session_ticket cr (h @ Got (Tpm c) x # es) = session_ticket cr (h @ es)"
  "session_ticket cr (h @ Did a # es) = session_ticket cr (h @ es)"
  by (simp_all add: session_ticket_def split: act.splits)

lemma signed_sessionI:
  "pack_sig r s = Some sig \<Longrightarrow> policy_bound (session_ticket cr (h @ es)) digest (h @ es) \<Longrightarrow>
   Got (Tpm (Sign digest)) (ASig r s) \<in> set es \<Longrightarrow> signed_session cr sig (h @ es)"
  by (auto simp: signed_session_def)

lemma verify_host_wp:
  "untouched h \<Longrightarrow> session_cipher cr c [] h \<Longrightarrow> host_wp cr (verify (session_ticket cr h)) (\<lambda>r h'.
     untouched h' \<and> session_cipher cr c [] h' \<and>
     (case r of Inr sig \<Rightarrow> signed_session cr sig h' \<and> length sig = 64 | Inl _ \<Rightarrow> True)) h"
  by (auto simp: verify_def wp_simps policy_bound_def untouched_def session_cipher_def
      length_pack_sig split: option.splits intro!: signed_sessionI)

definition auth_post :: "crypto \<Rightarrow> bool \<Rightarrow> cipher \<Rightarrow> event list \<Rightarrow> bool" where
  "auth_post cr trustworthy c h \<longleftrightarrow> (\<exists>b. session_cipher cr c [[b]] h \<and>
     (trustworthy \<longrightarrow> b = 0x20 \<and> approved cr h) \<and>
     (\<not> trustworthy \<longrightarrow> Out Device [0x90] \<in> set h \<or> b \<in> {0x12, 0x13, 0x14})) \<and>
   cpos c = 0 \<and> untouched h"

lemma approvedI:
  "signed_session cr sig g \<Longrightarrow> approved cr (g @ [Out Device [0x97], Out Device sig, In Device [0x20]])"
  unfolding approved_def by (intro exI [of _ g] exI [of _ sig] exI [of _ "[]"]) simp

lemma approved_append: "approved cr h \<Longrightarrow> approved cr (h @ es)"
  by (fastforce simp: approved_def)

lemma session_cipher_In:
  "session_cipher cr c msgs h \<Longrightarrow> session_cipher cr c (msgs @ [bs]) (h @ [In p bs])"
  by (fastforce simp: session_cipher_def)

definition auth_result :: "crypto \<Rightarrow> box_error + bool \<times> cipher \<Rightarrow> event list \<Rightarrow> bool" where
  "auth_result cr r h = (case r of Inr (t, c) \<Rightarrow> auth_post cr t c h | Inl _ \<Rightarrow> exits h = [])"

lemma auth_result_simps [simp]:
  "auth_result cr (Inl e) h \<longleftrightarrow> exits h = []" "auth_result cr (Inr (t, c)) h \<longleftrightarrow> auth_post cr t c h"
  by (simp_all add: auth_result_def)

text \<open>The last step: the answer is passed on and the TKey's verdict read.\<close>

lemma after_verify_host_wp:
  assumes "untouched h" "session_cipher cr c [] h" "cpos c = 0"
    "case r of Inr sig \<Rightarrow> signed_session cr sig h \<and> length sig = 64 | Inl _ \<Rightarrow> True"
  shows "host_wp cr
    (tryq id (case r of
         Inr sig \<Rightarrow>
           tryq BoxIo (write_all Device [host_message_u8 TpmSigned]) (\<lambda>_.
           tryq BoxIo (write_all Device sig) (\<lambda>_.
           Ret (Inr True)))
       | Inl e \<Rightarrow>
           tryq BoxIo (write_all Device [host_err_u8 TpmRefusedToSign]) (\<lambda>_.
           Ret (Inr False))) (\<lambda>trustworthy.
     tryq id (read_verdict trustworthy) (\<lambda>trustworthy. Ret (Inr (trustworthy, c)))))
    (auth_result cr) h"
proof -
  have ne: "sig \<noteq> [b]" if "length sig = 64" for sig :: bytes and b using that by auto
  have cipher: "session_cipher cr c [bs] (h @ [Out Device x, Out Device y, In Device bs])"
    "session_cipher cr c [bs] (h @ [Out Device x, In Device bs])" for bs x y
    using assms(2) by (auto simp: session_cipher_def)
  show ?thesis
    using assms
    by (auto simp: wp_simps read_verdict_def auth_post_def ne untouched_def client_status_iff
        split: sum.splits client_message.splits client_error.splits
        intro!: cipher approvedI exI [where x = "_ :: byte"])
qed

lemma after_key_exchange_wp:
  assumes "untouched h" "session_cipher cr c [] h" "cpos c = 0" "chal = session_ticket cr h"
  shows "host_wp cr
    (tryq id (bnd (verify chal) (\<lambda>r.
      (case r of
         Inr sig \<Rightarrow>
           tryq BoxIo (write_all Device [host_message_u8 TpmSigned]) (\<lambda>_.
           tryq BoxIo (write_all Device sig) (\<lambda>_.
           Ret (Inr True)))
       | Inl e \<Rightarrow>
           tryq BoxIo (write_all Device [host_err_u8 TpmRefusedToSign]) (\<lambda>_.
           Ret (Inr False))))) (\<lambda>trustworthy.
     tryq id (read_verdict trustworthy) (\<lambda>trustworthy. Ret (Inr (trustworthy, c)))))
    (auth_result cr) h"
  unfolding wp_tryq [where c = id and m = "bnd _ _"] wp_bnd assms(4)
  by (rule wp_mono [OF verify_host_wp [OF assms(1,2)]])
     (use assms(3) after_verify_host_wp [unfolded wp_tryq [where c = id and m = "case_sum _ _ _"]] in blast)

lemma auth_wp:
  assumes "crypto_ok cr" "received h = []" "untouched h" "entropy h = []"
  shows "host_wp cr (auth_with_tkey_and_tpm cr bin)
    (auth_result cr) h"
proof -
  have pub: "\<forall>seed. length (x_public cr seed) = 32"
    using assms(1) by (simp add: crypto_ok_def)
  have q: "untouched h' \<and> entropy h' = []" if "quiet h h'" for h'
    using quietD [OF that] assms(3,4) by (simp add: untouched_def)
  have exch: "host_wp cr (get_chacha20_cipher cr nonce) (\<lambda>r h'. case r of
       Inr (c, chal) \<Rightarrow> session_cipher cr c [] h' \<and> cpos c = 0 \<and> chal = session_ticket cr h' \<and> untouched h'
     | Inl _ \<Rightarrow> exits h' = []) (h' @ [In Device nonce])"
    if "quiet h h'" "length nonce = 32" for h' nonce
    by (rule get_chacha20_cipher_wp [where pre = "received h'"])
       (use q [OF that(1)] that(2) pub in \<open>auto simp: untouched_def\<close>)
  have read_nonce: "host_wp cr (read_exact Device 32)
    (\<lambda>r h''. case r of Inr nonce \<Rightarrow> length nonce = 32 \<and> h'' = h' @ [In Device nonce]
      | Inl _ \<Rightarrow> exits h'' = exits h') h'" for h'
    by (simp add: wp_simps)
  show ?thesis
    unfolding auth_with_tkey_and_tpm_def
    by (intro wp_tryqI [OF tkey_new_wp [OF quiet_refl]] wp_tryqI [OF load_app_quiet]
        wp_tryqI [OF read_nonce])
      (use assms(3) in \<open>auto dest: quietD simp: untouched_def intro!: wp_tryqI [OF exch] after_key_exchange_wp\<close>)
qed

subsection \<open>Unlocking\<close>

text \<open>The state between two tries: \<open>n\<close> passphrases were used, none was accepted.\<close>

definition tries_inv :: "crypto \<Rightarrow> bool \<Rightarrow> nat \<Rightarrow> cipher \<Rightarrow> event list \<Rightarrow> bool" where
  "tries_inv cr trustworthy n c h \<longleftrightarrow> keystream_used h = cpos c \<and> guesses h = n \<and>
     Some 0 \<notin> set (exits h) \<and> length (exits h) \<le> n \<and> (trustworthy \<longrightarrow> approved cr h)"

lemma prompts_differ [simp]: "prompt_trusted \<noteq> prompt_untrusted" "prompt_untrusted \<noteq> prompt_trusted"
  by (simp_all add: prompt_trusted_def prompt_untrusted_def)

definition asked_post :: "crypto \<Rightarrow> bool \<Rightarrow> nat \<Rightarrow> nat \<Rightarrow> (client_error \<times> cipher) + cipher \<Rightarrow>
    event list \<Rightarrow> bool" where
  "asked_post cr trustworthy n m r h \<longleftrightarrow> (case r of
     Inr c \<Rightarrow> tries_inv cr trustworthy (Suc n) c h \<and> length (exits h) = m
   | Inl (e, c) \<Rightarrow> Some 0 \<notin> set (exits h) \<and>
       (e = PassLen \<or> e = Blake2 \<longrightarrow> tries_inv cr trustworthy (Suc n) c h))"

lemma asked_post_simps [simp]:
  "asked_post cr t n m (Inr c) h \<longleftrightarrow> tries_inv cr t (Suc n) c h \<and> length (exits h) = m"
  "asked_post cr t n m (Inl (e, c)) h \<longleftrightarrow> Some 0 \<notin> set (exits h) \<and>
     (e = PassLen \<or> e = Blake2 \<longrightarrow> tries_inv cr t (Suc n) c h)"
  by (simp_all add: asked_post_def)

lemma hashed_ne:
  "crypto_ok cr \<Longrightarrow> hash_password cr cfg p = Some hp \<Longrightarrow> fst (crypt c hp) \<noteq> [b]"
  by (auto simp: hash_password_def dest!: crypto_okD(5) arg_cong [of _ _ length])

lemma ask_for_password_wp:
  assumes "crypto_ok cr" "tries_inv cr t n c h" "n < 3" "length (exits h) = m"
  shows "host_wp cr (ask_for_password cr cfg fuel t c) (asked_post cr t n m) h"
  using assms(2-)
proof (induction fuel arbitrary: h t)
  case (Suc fuel)
  have inv: "keystream_used h = cpos c" "guesses h = n" "Some 0 \<notin> set (exits h)"
    "length (exits h) \<le> n" "t \<Longrightarrow> approved cr h" "n < 3" "length (exits h) = m" "m \<le> n" "m \<le> Suc n"
    using Suc.prems by (auto simp: tries_inv_def)
  show ?case
    by (auto simp: wp_simps Let_def tries_inv_def inv approved_append client_status_iff
        client_error_from_io_def crypt_def hashed_ne [OF assms(1), unfolded crypt_def fst_conv]
        intro!: Suc.IH split: option.splits sum.splits client_message.splits)
qed simp

definition decrypt_post :: "crypto \<Rightarrow> bool \<Rightarrow> nat \<Rightarrow> (host_err \<times> cipher) + cipher \<Rightarrow> event list \<Rightarrow> bool" where
  "decrypt_post cr t n r h \<longleftrightarrow> (case r of
     Inr c \<Rightarrow> (\<exists>xs. exits h = xs @ [Some 0] \<and> Some 0 \<notin> set xs \<and> length xs < n)
   | Inl (e, c) \<Rightarrow> Some 0 \<notin> set (exits h) \<and>
       (e = CryptsetupKilled \<or> e = CryptsetupErr \<longrightarrow> tries_inv cr t n c h))"

lemma decrypt_post_simps [simp]:
  "decrypt_post cr t n (Inr c) h \<longleftrightarrow> (\<exists>xs. exits h = xs @ [Some 0] \<and> Some 0 \<notin> set xs \<and> length xs < n)"
  "decrypt_post cr t n (Inl (e, c)) h \<longleftrightarrow> Some 0 \<notin> set (exits h) \<and>
     (e = CryptsetupKilled \<or> e = CryptsetupErr \<longrightarrow> tries_inv cr t n c h)"
  by (simp_all add: decrypt_post_def)

lemma decrypt_wp:
  assumes "tries_inv cr t n c h" "length (exits h) < n"
  shows "host_wp cr (decrypt cfg c) (decrypt_post cr t n) h"
  using assms
  by (auto simp: decrypt_def wp_simps Let_def tries_inv_def approved_append host_err_from_io_def
      crypt_def split: option.splits)

definition unlock_post :: "box_error + exit_code \<Rightarrow> event list \<Rightarrow> bool" where
  "unlock_post r h \<longleftrightarrow> (case r of
     Inr Success \<Rightarrow> (\<exists>xs. exits h = xs @ [Some 0] \<and> Some 0 \<notin> set xs \<and> length xs < 3)
   | Inr Failure \<Rightarrow> Some 0 \<notin> set (exits h) \<and> guesses h = 3
   | Inl e \<Rightarrow> Some 0 \<notin> set (exits h))"

lemma unlock_post_simps [simp]:
  "unlock_post (Inr Success) h \<longleftrightarrow> (\<exists>xs. exits h = xs @ [Some 0] \<and> Some 0 \<notin> set xs \<and> length xs < 3)"
  "unlock_post (Inr Failure) h \<longleftrightarrow> Some 0 \<notin> set (exits h) \<and> guesses h = 3"
  "unlock_post (Inl e) h \<longleftrightarrow> Some 0 \<notin> set (exits h)"
  by (simp_all add: unlock_post_def)

lemma tries_inv_In [simp]:
  "tries_inv cr t n c h \<Longrightarrow> tries_inv cr t n c (h @ [In p bs])"
  by (auto simp: tries_inv_def approved_append)

lemma tries_inv_exits: "tries_inv cr t n c h \<Longrightarrow> Some 0 \<notin> set (exits h)"
  by (simp add: tries_inv_def)

lemma one_try_wp:
  assumes cr: "crypto_ok cr" and inv: "tries_inv cr t n c h" and n: "n < 3"
    and next_try: "\<And>c' h'. tries_inv cr t (Suc n) c' h' \<Longrightarrow> host_wp cr (nxt c') unlock_post h'"
  shows "host_wp cr
      (bnd check_status (\<lambda>status.
      if status \<noteq> Inr Ready4pass then Ret (Inl (BoxClient OutOfsync))
      else
      bnd (ask_for_password cr cfg fuel t c) (\<lambda>r.
      (case r of
         Inl (e, c) \<Rightarrow>
           if e = PassLen \<or> e = Blake2 then nxt c
           else Ret (Inl (BoxClient e))
       | Inr c \<Rightarrow>
           bnd (decrypt cfg c) (\<lambda>d.
           (case d of
              Inr _ \<Rightarrow> Ret (Inr Success)
            | Inl (e, c) \<Rightarrow>
                if e = CryptsetupKilled \<or> e = CryptsetupErr
                then nxt c
                else Ret (Inl (BoxHost e)))))))) unlock_post h"
proof -
  have decr: "host_wp cr (bnd (decrypt cfg c') (\<lambda>d. case d of
        Inr _ \<Rightarrow> Ret (Inr Success)
      | Inl (e, c) \<Rightarrow> if e = CryptsetupKilled \<or> e = CryptsetupErr then nxt c
          else Ret (Inl (BoxHost e)))) unlock_post h'"
    if "tries_inv cr t (Suc n) c' h'" "length (exits h') = length (exits h)" for c' h'
  proof (rule wp_bndI [OF decrypt_wp [OF that(1)]])
    show "length (exits h') < Suc n" using that(2) inv by (simp add: tries_inv_def)
  qed (use n in \<open>auto simp: next_try split: sum.splits prod.splits\<close>)
  have ask: "host_wp cr (bnd (ask_for_password cr cfg fuel t c) (\<lambda>r. case r of
         Inl (e, c) \<Rightarrow> if e = PassLen \<or> e = Blake2 then nxt c else Ret (Inl (BoxClient e))
       | Inr c \<Rightarrow> bnd (decrypt cfg c) (\<lambda>d. case d of
              Inr _ \<Rightarrow> Ret (Inr Success)
            | Inl (e, c) \<Rightarrow> if e = CryptsetupKilled \<or> e = CryptsetupErr then nxt c
                else Ret (Inl (BoxHost e))))) unlock_post (h @ [In Device [b]])" for b
    by (rule wp_bndI [OF ask_for_password_wp [OF cr tries_inv_In [OF inv] n]])
       (auto simp: next_try intro!: decr split: sum.splits prod.splits)
  show ?thesis
    by (rule wp_bndI [where R = "\<lambda>r h'. Some 0 \<notin> set (exits h') \<and>
          (r = Inr Ready4pass \<longrightarrow> (\<exists>b. h' = h @ [In Device [b]]))"])
       (use tries_inv_exits [OF inv] in \<open>auto simp: wp_check_status allows_guarded intro!: ask\<close>)
qed

lemma tries_loop_wp:
  assumes "crypto_ok cr" "tries_inv cr t n c h" "n \<le> 3"
  shows "host_wp cr (tries_loop cr cfg fuel t (Suc n) c) unlock_post h"
  using assms(2-)
proof (induction "3 - n" arbitrary: n c h)
  case 0
  then show ?case by (subst tries_loop.simps) (simp add: tries_inv_def)
next
  case (Suc m)
  then have n: "n < 3" by simp
  have next_try: "host_wp cr (tries_loop cr cfg fuel t (Suc n + 1) c') unlock_post h'"
    if "tries_inv cr t (Suc n) c' h'" for c' h'
    using Suc.hyps(1) [OF _ that] Suc.hyps(2) by simp
  have "\<not> 3 < Suc n" using n by simp
  then show ?case
    by (subst tries_loop.simps, simp only: if_False)
       (rule one_try_wp [OF assms(1) Suc.prems(1) n next_try])
qed

lemma host_main_wp:
  assumes "crypto_ok cr"
  shows "host_wp cr (host_main cr cfg fuel) unlock_post []"
proof -
  let ?clean = "\<lambda>h. received h = [] \<and> untouched h \<and> entropy h = []"
  have auth: "host_wp cr (tryq id (auth_with_tkey_and_tpm cr bin) (\<lambda>(trustworthy, cipher).
      tries_loop cr cfg fuel trustworthy 1 cipher)) unlock_post h" if "?clean h" for bin h
    by (rule wp_tryqI [OF auth_wp [OF assms]])
       (use that tries_loop_wp [OF assms, where n = 0] in \<open>auto simp: auth_post_def untouched_def tries_inv_def\<close>)
  show ?thesis
    by (auto simp: host_main_def wp_tryq [where c = BoxIo] wp_sys allows_guarded untouched_def intro!: auth)
qed

subsection \<open>Enrolling\<close>

text \<open>No child process has ended yet, and the cipher is where the keystream was left.\<close>

definition no_exit :: "cipher \<Rightarrow> event list \<Rightarrow> bool" where
  "no_exit c h \<longleftrightarrow> keystream_used h = cpos c \<and> exits h = []"

definition pass_post :: "box_error + cipher \<Rightarrow> event list \<Rightarrow> bool" where
  "pass_post r h \<longleftrightarrow> (case r of Inr c \<Rightarrow> no_exit c h | Inl e \<Rightarrow> exits h = [])"

lemma pass_post_simps [simp]:
  "pass_post (Inr c) h \<longleftrightarrow> no_exit c h" "pass_post (Inl e) h \<longleftrightarrow> exits h = []"
  by (simp_all add: pass_post_def)

lemmas pass_wp = wp_simps Let_def no_exit_def crypt_def client_status_iff

lemma enroll_pass_enroll_wp:
  assumes "crypto_ok cr" "no_exit c h"
  shows "host_wp cr (enroll_pass_enroll cr cfg fuel c) pass_post h"
  using assms(2)
proof (induction fuel arbitrary: h)
  case (Suc fuel)
  then show ?case
    by (auto simp: pass_wp hashed_ne [OF assms(1), unfolded crypt_def fst_conv] intro!: Suc.IH
        split: option.splits sum.splits client_message.splits)
qed simp

lemma qubes_pass_enroll_wp:
  assumes "crypto_ok cr" "no_exit c h"
  shows "host_wp cr (qubes_pass_enroll cr cfg fuel c) pass_post h"
  using assms(2)
proof (induction fuel arbitrary: h)
  case (Suc fuel)
  then show ?case
    by (auto simp: pass_wp hashed_ne [OF assms(1), unfolded crypt_def fst_conv] intro!: Suc.IH
        split: option.splits sum.splits client_message.splits)
qed simp

definition enroll_post :: "box_error + exit_code \<Rightarrow> event list \<Rightarrow> bool" where
  "enroll_post r h \<longleftrightarrow> (case r of
     Inr Success \<Rightarrow> exits h = [Some 0]
   | Inr Failure \<Rightarrow> (\<exists>k. exits h = [Some k] \<and> k \<noteq> 0)
   | Inl e \<Rightarrow> True)"

lemma enroll_post_simps [simp]:
  "enroll_post (Inr Success) h \<longleftrightarrow> exits h = [Some 0]"
  "enroll_post (Inr Failure) h \<longleftrightarrow> (\<exists>k. exits h = [Some k] \<and> k \<noteq> 0)"
  "enroll_post (Inl e) h"
  by (simp_all add: enroll_post_def)

lemma enroll_enroll_wp:
  "no_exit c h \<Longrightarrow> host_wp cr (enroll_enroll cfg c) (\<lambda>r h'. case r of
     Inr _ \<Rightarrow> exits h' = [Some 0]
   | Inl CryptsetupErr \<Rightarrow> (\<exists>k. exits h' = [Some k] \<and> k \<noteq> 0)
   | Inl _ \<Rightarrow> True) h"
  by (auto simp: enroll_enroll_def wp_simps Let_def no_exit_def crypt_def host_err_from_io_def split: option.splits)

lemma expect_ready_wp:
  "no_exit c h \<Longrightarrow> host_wp cr expect_ready (\<lambda>_ h'. no_exit c h') h"
  by (auto simp: expect_ready_def wp_simps no_exit_def)

lemma enroll_main_wp:
  assumes "crypto_ok cr"
  shows "host_wp cr (enroll_main cr cfg bin fuel) enroll_post []"
proof -
  have auth: "host_wp cr (auth_with_tkey_and_tpm cr bin)
      (\<lambda>r h. case r of Inr (t, c) \<Rightarrow> no_exit c h | Inl e \<Rightarrow> True) []"
    by (rule wp_mono [OF auth_wp [OF assms]])
       (auto simp: auth_result_def auth_post_def untouched_def no_exit_def split: sum.splits)
  have last: "host_wp cr (bnd (enroll_enroll cfg c) (\<lambda>r. Ret (case r of
       Inr _ \<Rightarrow> Inr Success
     | Inl CryptsetupErr \<Rightarrow> Inr Failure
     | Inl e \<Rightarrow> Inl (BoxHost e)))) enroll_post h" if "no_exit c h" for c h
    by (rule wp_bndI [OF enroll_enroll_wp [OF that]]) (auto split: sum.splits host_err.splits)
  show ?thesis
    unfolding enroll_main_def
    by (auto intro!: wp_tryqI [OF auth] wp_tryqI [OF expect_ready_wp]
        wp_tryqI [OF enroll_pass_enroll_wp [OF assms]] last)
qed

subsection \<open>Enrolling on Qubes\<close>

definition not_ended :: "cipher \<Rightarrow> box_error + unit \<Rightarrow> event list \<Rightarrow> bool" where
  "not_ended c r h \<longleftrightarrow> no_exit c h"

lemma forward_signature_wp:
  "no_exit c h \<Longrightarrow> host_wp cr (forward_signature k) (not_ended c) h"
  by (auto simp: forward_signature_def wp_simps no_exit_def not_ended_def
      split: sum.splits host_message.splits host_err.splits dest: arg_cong [of _ _ length])

lemma expect_good_sig_wp:
  "no_exit c h \<Longrightarrow> host_wp cr expect_good_sig (not_ended c) h"
  by (auto simp: expect_good_sig_def wp_simps no_exit_def not_ended_def)

lemma send_enrollment_wp:
  "no_exit c h \<Longrightarrow> host_wp cr (send_enrollment c ek) (\<lambda>_ h'. exits h' = []) h"
  by (auto simp: send_enrollment_def wp_simps Let_def no_exit_def crypt_def
      split: sum.splits host_message.splits)

lemma send_slot_wp:
  "exits h = [] \<Longrightarrow> host_wp cr (send_slot slot) (\<lambda>_ h'. exits h' = []) h"
  by (auto simp: send_slot_def wp_simps)

lemma read_exact_wp:
  "P h \<Longrightarrow> (\<And>e. e = InFail p \<or> (\<exists>bs. e = In p bs) \<Longrightarrow> P (h @ [e])) \<Longrightarrow>
   host_wp cr (read_exact p n) (\<lambda>r h'. P h' \<and> (case r of Inr bs \<Rightarrow> length bs = n | Inl _ \<Rightarrow> True)) h"
  by (auto simp: wp_simps)

lemma no_exit_In [simp]:
  "no_exit c h \<Longrightarrow> no_exit c (h @ [In p bs])" "no_exit c h \<Longrightarrow> no_exit c (h @ [InFail p])"
  by (simp_all add: no_exit_def)

lemma qubes_run_wp:
  assumes "crypto_ok cr"
  shows "host_wp cr (qubes_run cr cfg bin fuel argv) enroll_post []"
proof -
  have pub: "\<forall>seed. length (x_public cr seed) = 32"
    using assms(1) by (simp add: crypto_ok_def)
  have finish: "host_wp cr
     (tryq BoxIo (sys (Child ChildWait)) (\<lambda>code.
      if code_of code = Some 0 then
        tryq BoxIo (write_all Device [host_message_u8 DecryptionSuccess]) (\<lambda>_. Ret (Inr Success))
      else Ret (Inl (BoxStr e)))) enroll_post h" if "exits h = []" for h e
    using that by (auto simp: wp_simps)
  have exch: "host_wp cr (get_chacha20_cipher cr nonce) (\<lambda>r h'. case r of
       Inr (c, chal) \<Rightarrow> no_exit c h' | Inl _ \<Rightarrow> True) h"
    if pre: "\<exists>pre. received h = pre @ [nonce]" and h: "untouched h \<and> entropy h = []" "length nonce = 32"
    for h nonce
  proof -
    from pre obtain pre where pre: "received h = pre @ [nonce]" ..
    show ?thesis
      by (rule wp_mono [OF get_chacha20_cipher_wp [OF pre _ _ h(2) pub]])
         (use h(1) in \<open>auto simp: no_exit_def untouched_def split: sum.splits\<close>)
  qed
  have load: "host_wp cr (load_app cr bin) (\<lambda>r h'. untouched h' \<and> entropy h' = []) h"
    if "untouched h \<and> entropy h = []" for h
    by (rule wp_mono [OF load_app_quiet [OF quiet_refl]])
       (use that in \<open>auto simp: untouched_def dest: quietD\<close>)
  have sent: "no_exit a (h @ [Out p b, Got (Flush r) x]) = no_exit a h" for a h p b r x
    by (simp add: no_exit_def)
  have key: "host_wp cr (read_exact Device 32) (\<lambda>_ h'. no_exit c h') h" if "no_exit c h" for c h
    using that by (simp add: wp_simps)
  have tail: "host_wp cr (tryq id (forward_signature k) (\<lambda>_.
      tryq id expect_good_sig (\<lambda>_.
      tryq id expect_ready (\<lambda>_.
      tryq id (qubes_pass_enroll cr cfg fuel c) (\<lambda>c.
      tryq BoxIo (read_exact Device 32) (\<lambda>ek.
      tryq id (send_enrollment c ek) (\<lambda>_.
      tryq id (send_slot slot) (\<lambda>_.
      tryq BoxIo (sys (Child ChildWait)) (\<lambda>code.
      if code_of code = Some 0 then
        tryq BoxIo (write_all Device [host_message_u8 DecryptionSuccess]) (\<lambda>_. Ret (Inr Success))
      else Ret (Inl (BoxStr e))))))))))) enroll_post h" if "no_exit c h" for c h k slot e
    using that
    by (auto simp: not_ended_def intro!: wp_tryqI [OF forward_signature_wp] wp_tryqI [OF expect_good_sig_wp]
        wp_tryqI [OF expect_ready_wp] wp_tryqI [OF qubes_pass_enroll_wp [OF assms]] wp_tryqI [OF key]
        wp_tryqI [OF send_enrollment_wp] wp_tryqI [OF send_slot_wp] finish)
  have ne: "chal \<noteq> [b]" if "length chal = 108" for chal :: bytes and b using that by auto
  have q: "untouched h \<and> entropy h = []" if "quiet [] h" for h
    using quietD [OF that] by (simp add: untouched_def)
  show ?thesis
    unfolding qubes_run_def
    by (auto simp: wp_tryq [where c = BoxIo] wp_read_exact wp_sys wp_bnd wp_ask allows_guarded wp_write_all
        sent untouched_def [of "_ @ _"] dest!: q split: sum.splits
        intro!: wp_tryqI [OF tkey_new_wp [OF quiet_refl]] wp_tryqI [OF load] wp_tryqI [OF exch] tail)
       (auto simp: untouched_def)
qed

lemma qubes_main_wp:
  "crypto_ok cr \<Longrightarrow> host_wp cr (qubes_main cr cfg bin fuel argv) enroll_post []"
  unfolding qubes_main_def
  by (rule wp_bndI [OF qubes_run_wp]) (auto simp: wp_simps enroll_post_def split: sum.splits exit_code.splits)


subsection \<open>The programs as guarded programs\<close>

lemma guarded_host:
  assumes "host_wp cr p Q []"
  shows "guarded_program (\<lambda>_. True) (host_ok cr) (\<lambda>_ _. True) p Q"
  using assms by (simp add: guarded_program_def certified_def)

definition host_programs :: "crypto \<Rightarrow> config \<Rightarrow> bytes \<Rightarrow> nat \<Rightarrow> string list \<Rightarrow>
    (box_error + exit_code) proc set" where
  "host_programs cr cfg bin fuel argv =
     {host_main cr cfg fuel, enroll_main cr cfg bin fuel, qubes_main cr cfg bin fuel argv}"

lemma host_programs_guarded:
  "crypto_ok cr \<Longrightarrow> p \<in> host_programs cr cfg bin fuel argv \<Longrightarrow>
   \<exists>Q. guarded_program (\<lambda>_. True) (host_ok cr) (\<lambda>_ _. True) p Q"
  unfolding host_programs_def
  using guarded_host [OF host_main_wp] guarded_host [OF enroll_main_wp] guarded_host [OF qubes_main_wp]
  by fast

text \<open>The trace of a program from an arbitrary environment.\<close>

definition trace_of :: "'a proc \<Rightarrow> env \<Rightarrow> event list" where
  "trace_of p s = trace (snd (run p (s\<lparr>trace := []\<rparr>)))"

lemma host_guard:
  assumes "crypto_ok cr" "p \<in> host_programs cr cfg bin fuel argv" "trace_of p s = xs @ e # ys"
  shows "host_ok cr e xs"
proof -
  obtain Q where "guarded_program (\<lambda>_. True) (host_ok cr) (\<lambda>_ _. True) p Q"
    using host_programs_guarded [OF assms(1,2)] by blast
  from guarded_program.guard_holds [OF this _ assms(3) [unfolded trace_of_def]] show ?thesis by simp
qed

lemma host_guesses:
  assumes "crypto_ok cr"
  shows "guesses (take n (trace_of (host_main cr cfg fuel) s)) \<le> 3"
proof (induction n)
  case (Suc n)
  let ?t = "trace_of (host_main cr cfg fuel) s"
  show ?case
  proof (cases "n < length ?t")
    case True
    have "host_ok cr (?t ! n) (take n ?t)"
      by (rule host_guard [OF assms _ id_take_nth_drop [OF True]]) (auto simp: host_programs_def)
    with Suc True show ?thesis
      by (auto simp: take_Suc_conv_app_nth host_ok_def split: event.splits act.splits)
  next
    case False
    with Suc show ?thesis by simp
  qed
qed simp

lemma returned_post:
  assumes "host_wp cr p Q []" "run p (s\<lparr>trace := []\<rparr>) = (Ret v, s')"
  shows "Q v (trace s')"
  using guarded_program.returned_history [OF guarded_host [OF assms(1)] _ assms(2)] by simp

subsection \<open>Properties\<close>

text \<open>A session for the witnesses: toy libraries, a TPM that signs, a disk that opens.\<close>

definition demo_config :: config where
  "demo_config = \<lparr>luks_uuid = ''luks'', boot_device = ''boot'', encrypted_disk = ''disk'', salt = zeros 16\<rparr>"

definition demo_tkey :: "nat \<Rightarrow> bytes" where
  "demo_tkey n = zeros 5 @ zeros n @ zeros 129 @ zeros 32 @ zeros 12 @ zeros 32 @ [0x20, 0x22, 0x21] @ zeros 32"

definition demo_unlock :: env where
  "demo_unlock = start (\<lambda>_. demo_tkey 0)
     ([AOk, ABool True, ABytes (zeros 3)] @ replicate 7 AOk @ [ABytes (zeros 32)] @
      good_tpm (zeros 32) (zeros 32) (zeros 32) @
      [ABytes (replicate 9 0x61), AOk, AOk, AOk, ACode (Some 0)])"

definition demo_auth :: env where
  "demo_auth = start (\<lambda>_. demo_tkey 0) (replicate 7 AOk @ [ABytes (zeros 32)] @
      good_tpm (zeros 32) (zeros 32) (zeros 32))"

definition demo_enroll :: env where
  "demo_enroll = start (\<lambda>_. demo_tkey 35)
     (replicate 7 AOk @ [AInt 35, ABytes (zeros 32)] @ good_tpm (zeros 32) (zeros 32) (zeros 32) @
      [ABytes (replicate 9 0x61), ABytes (replicate 9 0x61), ABytes [0x61], AOk, AOk, AOk, AOk,
       ACode (Some 0)])"

text \<open>
  Property C6. \<open>trustworthy\<close> means what it says: \<open>auth_with_tkey_and_tpm\<close> returns True only
  if in this run the TPM signed, under its PCR policy, the digest of the ticket made of this
  session's nonces and public keys, this signature went to the TKey, and the TKey's next
  message was GoodSig. It returns False only after it announced a refusal or the TKey
  rejected the signature. Either way the cipher is the ChaCha20 stream of the shared secret
  and the nonce of this session, unused.
\<close>

theorem trustworthy_means_signed:
  assumes "crypto_ok cr"
  shows "case run (auth_with_tkey_and_tpm cr bin) (s\<lparr>trace := []\<rparr>) of
     (Ret (Inr (trustworthy, c)), s') \<Rightarrow> auth_post cr trustworthy c (trace s')
   | _ \<Rightarrow> True"
  using returned_post [OF auth_wp [OF assms], of bin s]
  by (auto simp: untouched_def split: prod.splits proc.splits sum.splits)

theorem trustworthy_means_signed_witness:
  "case run (auth_with_tkey_and_tpm toy_crypto (zeros 3)) (demo_auth\<lparr>trace := []\<rparr>) of
     (Ret (Inr (trustworthy, c)), s') \<Rightarrow> trustworthy \<and> auth_post toy_crypto trustworthy c (trace s')
   | _ \<Rightarrow> False"
proof -
  have "case run (auth_with_tkey_and_tpm toy_crypto (zeros 3)) (demo_auth\<lparr>trace := []\<rparr>) of
     (Ret (Inr (trustworthy, c)), s') \<Rightarrow> trustworthy | _ \<Rightarrow> False" by code_simp
  with trustworthy_means_signed [OF toy_crypto_ok, of "zeros 3" demo_auth] show ?thesis
    by (auto split: prod.splits proc.splits sum.splits)
qed

text \<open>
  Property C11. At most three passphrases of acceptable length are taken in one run, and the
  user is asked for no more after the third; and the user is shown the trusting prompt only in an
  approved session: whenever systemd-ask-password is run with it, the TPM's signature for this
  session was sent to the TKey before and answered with GoodSig.
\<close>

theorem trusting_prompt_only_when_approved:
  assumes "crypto_ok cr"
  shows "guesses (trace_of (host_main cr cfg fuel) s) \<le> 3 \<and>
    (\<forall>xs prog args x ys. trace_of (host_main cr cfg fuel) s = xs @ Got (Output prog args) x # ys \<longrightarrow>
       guesses xs < 3 \<and> (args = [prompt_trusted] \<longrightarrow> approved cr xs))"
  using host_guard [OF assms, of "host_main cr cfg fuel" cfg "[]" fuel "[]" s]
    host_guesses [OF assms, of "length (trace_of (host_main cr cfg fuel) s)" cfg fuel s]
  by (fastforce simp: host_programs_def)

fun is_prompt :: "event \<Rightarrow> bool" where
  "is_prompt (Got a x) = (case a of Output p as \<Rightarrow> True | _ \<Rightarrow> False)"
| "is_prompt _ = False"

theorem trusting_prompt_only_when_approved_witness:
  "(let t = trace_of (host_main toy_crypto demo_config 1) demo_unlock in
     guesses t \<le> 3 \<and> approved toy_crypto (takeWhile (\<lambda>e. \<not> is_prompt e) t))"
proof -
  let ?t = "trace_of (host_main toy_crypto demo_config 1) demo_unlock"
  have "?t = takeWhile (\<lambda>e. \<not> is_prompt e) ?t @
      Got (Output ''/usr/bin/systemd-ask-password'' [prompt_trusted]) (ABytes (replicate 9 0x61)) #
      tl (dropWhile (\<lambda>e. \<not> is_prompt e) ?t)"
    by code_simp
  then show ?thesis
    using trusting_prompt_only_when_approved [OF toy_crypto_ok, of demo_config 1 demo_unlock]
    unfolding Let_def by blast
qed


text \<open>
  Property C12. The unlocking program reports what happened: Success if and only if the last
  cryptsetup it waited for exited with 0 and none before did, within three attempts; Failure
  only after three passphrases were used and none opened the disk; an error only if no
  cryptsetup succeeded.
\<close>

theorem unlock_reports_outcome:
  assumes "crypto_ok cr"
  shows "case run (host_main cr cfg fuel) (s\<lparr>trace := []\<rparr>) of
     (Ret r, s') \<Rightarrow> unlock_post r (trace s')
   | _ \<Rightarrow> True"
  using returned_post [OF host_main_wp [OF assms], of cfg fuel s]
  by (auto split: prod.splits proc.splits)

theorem unlock_reports_outcome_witness:
  "case run (host_main toy_crypto demo_config 1) (demo_unlock\<lparr>trace := []\<rparr>) of
     (Ret r, s') \<Rightarrow> r = Inr Success \<and> unlock_post r (trace s') | _ \<Rightarrow> False"
proof -
  have "case run (host_main toy_crypto demo_config 1) (demo_unlock\<lparr>trace := []\<rparr>) of
     (Ret r, s') \<Rightarrow> r = Inr Success | _ \<Rightarrow> False" by code_simp
  with unlock_reports_outcome [OF toy_crypto_ok, of demo_config 1 demo_unlock] show ?thesis
    by (auto simp del: unlock_post_simps split: prod.splits proc.splits)
qed

text \<open>
  Property C18. No program of the host tells the TKey DecryptionSuccess unless the last child
  process it waited for (cryptsetup, or qrexec for dom0) exited with 0.
\<close>

theorem success_message_is_true:
  assumes "crypto_ok cr" "p \<in> host_programs cr cfg bin fuel argv"
    and "trace_of p s = xs @ Out Device [0x99] # ys"
  shows "exits xs \<noteq> [] \<and> last (exits xs) = Some 0"
  using host_guard [OF assms] by simp

fun is_success :: "event \<Rightarrow> bool" where
  "is_success (Out p bs) = (bs = [0x99])"
| "is_success _ = False"

theorem success_message_is_true_witness:
  "exits (takeWhile (\<lambda>e. \<not> is_success e) (trace_of (host_main toy_crypto demo_config 1) demo_unlock)) \<noteq> []"
proof -
  let ?t = "trace_of (host_main toy_crypto demo_config 1) demo_unlock"
  have "?t = takeWhile (\<lambda>e. \<not> is_success e) ?t @ Out Device [0x99] # []"
    by code_simp
  from success_message_is_true [OF toy_crypto_ok _ this, of demo_config "[]" 1 "[]"] show ?thesis
    by (simp add: host_programs_def)
qed


text \<open>
  Property C14. No program of the host uses a byte of the session's keystream twice: the
  positions used are 0, 1, 2, ... in this order, whatever happens.
\<close>

theorem host_keystream_fresh:
  assumes "crypto_ok cr" "p \<in> host_programs cr cfg bin fuel argv"
  shows "keystream_positions (trace_of p s) = [0 ..< keystream_used (trace_of p s)]"
  by (rule positions_in_sequence)
     (auto simp: host_ok_def in_sequence_def split: event.splits act.splits
       dest: host_guard [OF assms])

theorem host_keystream_fresh_witness:
  "keystream_positions (trace_of (host_main toy_crypto demo_config 1) demo_unlock) = [0 ..< 64]"
proof -
  have "keystream_used (trace_of (host_main toy_crypto demo_config 1) demo_unlock) = 64"
    by code_simp
  with host_keystream_fresh [OF toy_crypto_ok, of _ demo_config "[]" 1 "[]" demo_unlock] show ?thesis
    by (simp add: host_programs_def)
qed


text \<open>
  Property C28. The enrolling programs exit with success only if luksAddKey (on Qubes: dom0's
  verify) ended with exit code 0, and \<open>enroll\<close> exits with failure only if it ended with
  another code.
\<close>

theorem enroll_reports_outcome:
  assumes "crypto_ok cr" "p \<in> {enroll_main cr cfg bin fuel, qubes_main cr cfg bin fuel argv}"
  shows "case run p (s\<lparr>trace := []\<rparr>) of
     (Ret r, s') \<Rightarrow> enroll_post r (trace s')
   | _ \<Rightarrow> True"
proof -
  have "host_wp cr p enroll_post []"
    using assms enroll_main_wp qubes_main_wp by blast
  from returned_post [OF this, of s] show ?thesis
    by (auto split: prod.splits proc.splits)
qed

theorem enroll_reports_outcome_witness:
  "case run (enroll_main toy_crypto demo_config (zeros 1000) 1) (demo_enroll\<lparr>trace := []\<rparr>) of
     (Ret r, s') \<Rightarrow> r = Inr Success \<and> enroll_post r (trace s') | _ \<Rightarrow> False"
proof -
  let ?p = "enroll_main toy_crypto demo_config (zeros 1000) 1"
  have "case run ?p (demo_enroll\<lparr>trace := []\<rparr>) of
     (Ret r, s') \<Rightarrow> r = Inr Success | _ \<Rightarrow> False" by code_simp
  moreover have "?p \<in> {?p, qubes_main toy_crypto demo_config (zeros 1000) 1 []}" by simp
  note enroll_reports_outcome [OF toy_crypto_ok this, of demo_enroll]
  ultimately show ?thesis
    by (auto simp del: enroll_post_simps split: prod.splits proc.splits)
qed

end
