(* ===== verification/Phases.thy ===== *)
theory Phases
  imports Client Unlock Enroll
begin

text \<open>
  How the programs run when nothing fails: one lemma per phase of the protocol, each saying
  what is read, answered, sent and returned. \<open>on q bs T H\<close> is the environment of a program
  whose only peer is \<open>q\<close>: \<open>bs\<close> is still to be read, \<open>T\<close> still to be answered, \<open>H\<close> has
  happened.
\<close>

subsection \<open>Primitives\<close>

definition on :: "port \<Rightarrow> bytes \<Rightarrow> ans list \<Rightarrow> event list \<Rightarrow> env" where
  "on q bs T H = (start ((\<lambda>_. [])(q := bs)) T)\<lparr>trace := H\<rparr>"

lemma some_bool [simp]: "\<exists>t :: bool. t" "\<exists>t :: bool. \<not> t"
  by blast+

named_theorems on_simps \<open>running on the environment of one peer\<close>

lemma on_sel [simp]:
  "inbox (on q bs T H) = (\<lambda>_. [])(q := bs)" "eof (on q bs T H) = (\<lambda>_. False)"
  "quota (on q bs T H) = (\<lambda>_. None)" "tape (on q bs T H) = T" "trace (on q bs T H) = H"
  by (simp_all add: on_def)

lemma on_eqI:
  "inbox s = (\<lambda>_. [])(q := bs) \<Longrightarrow> eof s = (\<lambda>_. False) \<Longrightarrow> quota s = (\<lambda>_. None) \<Longrightarrow>
   tape s = T \<Longrightarrow> trace s = H \<Longrightarrow> s = on q bs T H"
  by (cases s) (simp add: on_def start_def)

lemma on_read [on_simps]:
  "length xs = n \<Longrightarrow> run (bnd (read_exact q n) f) (on q (xs @ ys) T H) =
     run (f (Inr xs)) (on q ys T (H @ [In q xs]))"
  "length xs = n \<Longrightarrow> run (bnd (read_exact q n) f) (on q xs T H) =
     run (f (Inr xs)) (on q [] T (H @ [In q xs]))"
  "run (bnd (read_exact q (Suc 0)) f) (on q (b # ys) T H) =
     run (f (Inr [b])) (on q ys T (H @ [In q [b]]))"
  "run (bnd (read_exact q 1) f) (on q (b # ys) T H) =
     run (f (Inr [b])) (on q ys T (H @ [In q [b]]))"
  by (simp_all add: run_read_ok) (rule arg_cong [of _ _ "run _"], rule on_eqI; simp)+

lemma on_write [on_simps]:
  "run (bnd (write_all p bs) f) (on q I T H) = run (f (Inr ())) (on q I T (H @ [Out p bs]))"
  by (simp add: run_write_ok) (rule arg_cong [of _ _ "run _"], rule on_eqI; simp)

lemma on_sys [on_simps]:
  "ans_ok a x \<Longrightarrow> run (bnd (sys a) f) (on q I (x # T) H) =
     run (f (if x = AErr then Inl OsError else Inr x)) (on q I T (H @ [Got a x]))"
  by (subst run_sys; simp) (intro conjI impI; rule arg_cong [of _ _ "run _"], rule on_eqI; simp)

lemma on_sys_wait [on_simps]:
  "run (bnd (sys a) f) (on q I [] H) = (bnd (sys a) f, on q I [] H)"
  by (simp add: sys_def)

lemma on_ask [on_simps]:
  "ans_ok a x \<Longrightarrow> run (bnd (ask a) f) (on q I (x # T) H) = run (f x) (on q I T (H @ [Got a x]))"
  by (simp add: run_ask) (rule arg_cong [of _ _ "run _"], rule on_eqI; simp)

lemma on_effect [on_simps]:
  "run (bnd (effect a) f) (on q I T H) = run (f ()) (on q I T (H @ [Did a]))"
  by (simp add: run_effect) (rule arg_cong [of _ _ "run _"], rule on_eqI; simp)

lemma on_keystream [on_simps]:
  "run (bnd (apply_keystream c d) f) (on q I T H) =
     run (f (crypt c d)) (on q I T (H @ [Did (Keystream (cpos c) (length d))]))"
  by (simp add: apply_keystream_def on_effect)

lemma on_tryq [on_simps]:
  "run (tryq c m k) s = run (bnd m (\<lambda>r. case r of Inl e \<Rightarrow> Ret (Inl (c e)) | Inr x \<Rightarrow> k x)) s"
  by (rule run_tryq)

text \<open>The device's primitives.\<close>

lemma on_write_u8 [on_simps]:
  "run (bnd (write_u8 b) f) (on q I T H) = run (f ()) (on q I T (H @ [Out Host [b]]))"
  by (simp add: write_u8_def) (rule arg_cong [of _ _ "run _"], rule on_eqI; simp)

lemma on_write_u8_slice [on_simps]:
  "run (bnd (write_u8_slice bs) f) (on q I T H) =
     run (f ()) (on q I T (H @ map (\<lambda>b. Out Host [b]) bs))"
  by (induction bs arbitrary: H) (simp_all add: on_write_u8)

lemma on_read_into [on_simps]:
  "length xs = n \<Longrightarrow> run (bnd (read_into n) f) (on Host (xs @ ys) T H) =
     run (f xs) (on Host ys T (H @ [In Host xs]))"
  "length xs = n \<Longrightarrow> run (bnd (read_into n) f) (on Host xs T H) =
     run (f xs) (on Host [] T (H @ [In Host xs]))"
  "run (bnd (read_into (Suc 0)) f) (on Host (b # ys) T H) =
     run (f [b]) (on Host ys T (H @ [In Host [b]]))"
  "run (bnd (read_into 1) f) (on Host (b # ys) T H) =
     run (f [b]) (on Host ys T (H @ [In Host [b]]))"
  by (simp_all add: read_into_def) (rule arg_cong [of _ _ "run _"], rule on_eqI; simp)+

lemma on_random [on_simps]:
  "length bs = n \<Longrightarrow> run (bnd (random n) f) (on q I (ABytes bs # T) H) =
     run (f bs) (on q I T (H @ [Got (Random n) (ABytes bs)]))"
  by (simp add: random_def on_ask)

lemma on_read_cdi [on_simps]:
  "length cdi = 32 \<Longrightarrow> run (bnd read_cdi f) (on q I (ABytes cdi # T) H) =
     run (f cdi) (on q I T (H @ [Got ReadCdi (ABytes cdi)]))"
  by (simp add: read_cdi_def on_ask)

lemma on_check_status [on_simps]:
  "run (bnd check_status f) (on Device (b # ys) T H) =
     run (f (client_message_try_from b)) (on Device ys T (H @ [In Device [b]]))"
  by (simp add: check_status_def on_simps)

subsection \<open>The device\<close>

text \<open>One attempt, whatever the host answers to the keyfile.\<close>

definition dev_attempt_events :: "crypto \<Rightarrow> cipher \<Rightarrow> bytes \<Rightarrow> bytes \<Rightarrow> byte \<Rightarrow> event list" where
  "dev_attempt_events cr c cdi eh b =
    (let keyfile = blake2s_fw cr cdi (fst (crypt c eh));
         c' = snd (crypt c eh) in
     [Out Host [0x22], In Host eh, Did (Keystream (cpos c) 32), Got ReadCdi (ABytes cdi),
      Got Blake2sCall AOk, Did (Zeroize ''host_hash''), Did (Keystream (cpos c + 32) 32),
      Did (Zeroize ''keyfile''), Out Host [0x21]] @
     map (\<lambda>b. Out Host [b]) (fst (crypt c' keyfile)) @
     [Did (Zeroize ''encrypted_keyfile''), Did (Zeroize ''cdi''), In Host [b]] @
     (if b = 0x99 then [] else [Did (SleepSecs 3)]))"

definition dev_attempt_tape :: "bytes \<Rightarrow> ans list" where
  "dev_attempt_tape cdi = [ABytes cdi, AOk]"

definition advance :: "nat \<Rightarrow> cipher \<Rightarrow> cipher" where
  "advance n c = c\<lparr>cpos := cpos c + n\<rparr>"

lemma on_client_attempt [on_simps]:
  assumes "crypto_ok cr" "length cdi = 32" "length eh = 32"
  shows "run (bnd (client_attempt cr c) f) (on Host (eh @ b # ys) (dev_attempt_tape cdi @ T) H) =
    run (f (b = 0x99, advance 64 c)) (on Host ys T (H @ dev_attempt_events cr c cdi eh b))"
  using assms
  by (auto simp: client_attempt_def on_simps dev_attempt_events_def dev_attempt_tape_def Let_def
      crypt_def advance_def crypto_okD add.commute)

text \<open>
  The loop on a list of attempts, each the host's message and its answer to the keyfile.
\<close>

fun dev_in :: "(bytes \<times> byte) list \<Rightarrow> bytes" where
  "dev_in [] = []"
| "dev_in ((eh, b) # as) = eh @ b # dev_in as"

fun dev_tape :: "bytes \<Rightarrow> (bytes \<times> byte) list \<Rightarrow> ans list" where
  "dev_tape cdi [] = []"
| "dev_tape cdi (a # as) = dev_attempt_tape cdi @ dev_tape cdi as"

fun dev_loop_events :: "crypto \<Rightarrow> bytes \<Rightarrow> cipher \<Rightarrow> (bytes \<times> byte) list \<Rightarrow> event list" where
  "dev_loop_events cr cdi c [] = []"
| "dev_loop_events cr cdi c ((eh, b) # as) =
     dev_attempt_events cr c cdi eh b @ dev_loop_events cr cdi (advance 64 c) as"

text \<open>What attempts a run can have: at most three, none after an accepted one.\<close>

fun attempts_end :: "nat \<Rightarrow> (bytes \<times> byte) list \<Rightarrow> bool option" where
  "attempts_end n [] = (if n = 0 then Some False else None)"
| "attempts_end n ((eh, b) # as) =
     (if n = 0 \<or> length eh \<noteq> 32 then None
      else if b = 0x99 then (if as = [] then Some True else None)
      else attempts_end (n - 1) as)"

lemma on_client_loop:
  assumes "crypto_ok cr" "length cdi = 32"
  shows "attempts_end (3 - n) as = Some ok \<Longrightarrow> n \<le> 3 \<Longrightarrow>
    run (bnd (client_loop cr c n) f) (on Host (dev_in as @ ys) (dev_tape cdi as @ T) H) =
    (if ok then run (f ()) (on Host ys T (H @ dev_loop_events cr cdi c as))
     else (Halt DeviceAbort, on Host ys T (H @ dev_loop_events cr cdi c as)))"
proof (induction as arbitrary: n c H)
  case Nil
  then show ?case by (subst client_loop.simps) (auto split: if_splits)
next
  case (Cons a as)
  obtain eh b where a: "a = (eh, b)" by (cases a)
  with Cons.prems have n: "n < 3" "length eh = 32" by (auto split: if_splits)
  have eq: "run (bnd (client_loop cr c n) f) (on Host (dev_in (a # as) @ ys) (dev_tape cdi (a # as) @ T) H) =
    run (bnd (if b = 0x99 then Ret () else client_loop cr (advance 64 c) (n + 1)) f)
      (on Host (dev_in as @ ys) (dev_tape cdi as @ T) (H @ dev_attempt_events cr c cdi eh b))"
    using n by (subst client_loop.simps) (simp add: a on_client_attempt [OF assms])
  show ?case
  proof (cases "b = 0x99")
    case True
    with Cons.prems n show ?thesis unfolding eq by (auto simp: a split: if_splits)
  next
    case False
    with Cons.prems n have "attempts_end (3 - Suc n) as = Some ok" by (simp add: a)
    with Cons.IH [OF this] n False show ?thesis unfolding eq by (simp add: a)
  qed
qed

text \<open>The gate: the TPM signed, or refused and the user touched the key.\<close>

datatype gate = Signed bytes | Touched

fun gate_msg :: "gate \<Rightarrow> bytes" where
  "gate_msg (Signed sig) = 0x97 # sig"
| "gate_msg Touched = [0x90]"

fun gate_reply :: "gate \<Rightarrow> byte" where
  "gate_reply (Signed sig) = 0x20"
| "gate_reply Touched = 0x13"

fun dev_gate_tape :: "gate \<Rightarrow> ans list" where
  "dev_gate_tape (Signed sig) = []"
| "dev_gate_tape Touched = [ABool True]"

fun dev_gate_events :: "gate \<Rightarrow> event list" where
  "dev_gate_events (Signed sig) =
     [In Host [0x97], In Host sig, Out Host [0x20], Did (Led LED_GREEN)]"
| "dev_gate_events Touched =
     [In Host [0x90], Out Host [0x13], Got (Touch 30 LED_YELLOW) (ABool True), Did (Led LED_YELLOW)]"

definition gate_opens :: "crypto \<Rightarrow> bytes \<Rightarrow> bytes \<Rightarrow> gate \<Rightarrow> bool" where
  "gate_opens cr key_bytes chal g \<longleftrightarrow> (\<exists>k. p256_key cr (sec1_bytes key_bytes) = Some k \<and>
     (case g of
        Signed sig \<Rightarrow> length sig = 64 \<and> (\<exists>sg. p256_sig cr sig = Some sg \<and> p256_verify cr k chal sg)
      | Touched \<Rightarrow> True))"

lemma on_gate:
  assumes "gate_opens cr key_bytes chal g"
  shows "run (bnd (verify_sig cr key_bytes chal) (\<lambda>r. thn (judge_sig r) k))
      (on Host (gate_msg g @ ys) (dev_gate_tape g @ T) H) =
    run k (on Host ys T (H @ dev_gate_events g))"
  using assms
  by (cases g) (auto simp: gate_opens_def verify_sig_def judge_sig_def on_simps)

text \<open>The whole device, from its start.\<close>

record device_secrets =
  d_nonce :: bytes
  d_enc_nonce :: bytes
  d_seed :: bytes
  d_cdi :: bytes

definition secrets_ok :: "device_secrets \<Rightarrow> bool" where
  "secrets_ok d \<longleftrightarrow> length (d_nonce d) = 32 \<and> length (d_enc_nonce d) = 12 \<and>
     length (d_seed d) = 32 \<and> length (d_cdi d) = 32"

definition d_pub :: "crypto \<Rightarrow> device_secrets \<Rightarrow> bytes" where
  "d_pub cr d = x_public cr (x_secret cr (d_seed d))"

definition hello :: "crypto \<Rightarrow> device_secrets \<Rightarrow> bytes" where
  "hello cr d = d_nonce d @ d_enc_nonce d @ d_pub cr d"

definition device_answers :: "device_secrets \<Rightarrow> gate \<Rightarrow> (bytes \<times> byte) list \<Rightarrow> ans list" where
  "device_answers d g as = [ABytes (d_nonce d), ABytes (d_enc_nonce d), ABytes (d_seed d)] @
     dev_gate_tape g @ dev_tape (d_cdi d) as"

definition epilogue_events :: "event list" where
  "epilogue_events = [Did (Led LED_GREEN), Did (SleepSecs 6), Did (Led LED_OFF)]"

definition hello_events :: "crypto \<Rightarrow> device_secrets \<Rightarrow> event list" where
  "hello_events cr d =
     Got (Random 32) (ABytes (d_nonce d)) # map (\<lambda>b. Out Host [b]) (d_nonce d) @
     Got (Random 12) (ABytes (d_enc_nonce d)) # map (\<lambda>b. Out Host [b]) (d_enc_nonce d) @
     Got (Random 32) (ABytes (d_seed d)) # Did (Zeroize ''seed'') #
     map (\<lambda>b. Out Host [b]) (d_pub cr d)"

lemma on_client_main:
  assumes cr: "crypto_ok cr" and d: "secrets_ok d" and hp: "length hp = 32"
    and stream: "chacha cr (x_dh cr (x_secret cr (d_seed d)) hp) (d_enc_nonce d) = Some stream"
    and gate: "gate_opens cr key_bytes (challange (d_nonce d) hp (d_pub cr d) (d_enc_nonce d)) g"
    and as: "attempts_end 3 as = Some ok"
  shows "run (client_main cr key_bytes) (on Host (hp @ gate_msg g @ dev_in as) (device_answers d g as) H) =
    (Halt (if ok then DeviceDone else DeviceAbort), on Host [] [] (H @ hello_events cr d @ [In Host hp] @
       dev_gate_events g @ dev_loop_events cr (d_cdi d) \<lparr>ks = stream, cpos = 0\<rparr> as @
       (if ok then epilogue_events else [])))"
proof -
  note loop = on_client_loop [OF cr, of "d_cdi d" 0 as ok _ _ "[]" "[]", simplified, OF _ as]
  have len: "length (d_nonce d) = 32" "length (d_enc_nonce d) = 12" "length (d_seed d) = 32"
    "length (d_cdi d) = 32" using d by (simp_all add: secrets_ok_def)
  show ?thesis
    by (simp add: client_main_def device_answers_def on_simps len hp stream on_gate [OF gate]
        loop client_epilogue_def hello_events_def epilogue_events_def Let_def flip: d_pub_def)
qed

subsection \<open>Loading the app\<close>

text \<open>
  What the firmware sends: the answer to the request, the answers to all frames but the last,
  and the digest.
\<close>

record boot_answers =
  b_resp :: bytes
  b_acks :: bytes
  b_digest :: bytes

definition boot_ok :: "crypto \<Rightarrow> bytes \<Rightarrow> boot_answers \<Rightarrow> bool" where
  "boot_ok cr bin b \<longleftrightarrow> bin \<noteq> [] \<and> length bin < 2 ^ 32 \<and> length (b_resp b) = 5 \<and> b_resp b ! 2 = 0 \<and>
     length (b_acks b) = 5 * (length (chunks 127 bin) - 1) \<and> length (b_digest b) = 129 \<and>
     take 32 (drop 3 (b_digest b)) = take 32 (blake2s256 cr bin)"

text \<open>The tty reports all bytes at the first question.\<close>

definition poll_answers :: "int \<Rightarrow> ans list" where
  "poll_answers e = (if e \<le> 0 then [] else [AInt e])"

definition poll_events :: "int \<Rightarrow> event list" where
  "poll_events e = (if e \<le> 0 then [] else [Got Fionread (AInt e), Did (SleepMillis 10)])"

lemma on_poll_ready [on_simps]:
  assumes "e < 2 ^ 31"
  shows "run (bnd (poll_ready e 0 0) f) (on q I (poll_answers e @ T) H) =
    run (f (Inr ())) (on q I T (H @ poll_events e))"
proof (cases "e \<le> 0")
  case True
  then show ?thesis by (subst poll_ready.simps) (simp add: poll_answers_def poll_events_def)
next
  case False
  have "poll_ready e e 1 = Ret (Inr ())" by (subst poll_ready.simps) simp
  with False assms show ?thesis
    by (subst poll_ready.simps) (simp add: poll_answers_def poll_events_def on_simps)
qed

lemma on_send_frames:
  assumes "0 \<le> expected_bytes nt" "expected_bytes nt < 2 ^ 31" "length pre = nat (expected_bytes nt)"
    "length dig = 129"
  shows "nt = of_nat (i + length cs) \<Longrightarrow> i + length cs < 2 ^ 64 \<Longrightarrow> cs \<noteq> [] \<Longrightarrow>
    take 32 (drop 3 dig) = take 32 (blake2s256 cr (hashed @ concat cs)) \<Longrightarrow>
    run (bnd (send_frames cr nt hashed i cs) f)
      (on Device (pre @ dig @ ys) (poll_answers (expected_bytes nt) @ T) H) =
    run (f (Inr ())) (on Device ys T (H @ map (\<lambda>c. Out Device (load_frame c)) cs @
      poll_events (expected_bytes nt) @ [In Device pre, In Device dig]))"
proof (induction cs arbitrary: i hashed H)
  case (Cons c cs)
  have last: "of_nat i = nt - 1 \<longleftrightarrow> cs = []"
  proof -
    have "nt - 1 = of_nat (i + length cs)" using Cons.prems(1) by simp
    moreover have "(of_nat i :: 64 word) = of_nat (i + length cs) \<longleftrightarrow> i = i + length cs"
      using Cons.prems(2) by (intro of_nat_eq_iff_word) auto
    ultimately show ?thesis by auto
  qed
  show ?case
  proof (cases "cs = []")
    case True
    then show ?thesis
      using assms Cons.prems(4) by (simp add: on_simps last finish_load_def Let_def)
  next
    case False
    have "run (bnd (send_frames cr nt (hashed @ c) (Suc i) cs) f)
        (on Device (pre @ dig @ ys) (poll_answers (expected_bytes nt) @ T) (H @ [Out Device (load_frame c)])) =
      run (f (Inr ())) (on Device ys T ((H @ [Out Device (load_frame c)]) @
        map (\<lambda>c. Out Device (load_frame c)) cs @
        poll_events (expected_bytes nt) @ [In Device pre, In Device dig]))"
      by (rule Cons.IH) (use Cons.prems False in auto)
    with False show ?thesis by (simp add: on_simps last)
  qed
qed simp

definition request_events :: "bytes \<Rightarrow> event list" where
  "request_events bin = [Out Device [frame_header], Out Device [0x03],
     Out Device (to_le_bytes (of_nat (length bin))), Out Device [0], Out Device (zeros 32),
     Out Device (zeros 90)]"

definition load_events :: "bytes \<Rightarrow> boot_answers \<Rightarrow> event list" where
  "load_events bin b = request_events bin @ [In Device (b_resp b)] @
     map (\<lambda>c. Out Device (load_frame c)) (chunks 127 bin) @
     poll_events (expected_bytes (total_frames bin)) @ [In Device (b_acks b), In Device (b_digest b)]"

lemma on_load_app:
  assumes "boot_ok cr bin b"
  shows "run (bnd (load_app cr bin) f) (on Device (b_resp b @ b_acks b @ b_digest b @ ys)
      (poll_answers (expected_bytes (total_frames bin)) @ T) H) =
    run (f (Inr ())) (on Device ys T (H @ load_events bin b))"
proof -
  have bin: "bin \<noteq> []" "length bin < 2 ^ 32" using assms by (simp_all add: boot_ok_def)
  have ne: "chunks 127 bin \<noteq> []" using bin(1) by (simp add: chunks_step)
  have e: "expected_bytes (total_frames bin) = 5 * (int (length (chunks 127 bin)) - 1)"
    by (rule expected_bytes_eq [OF bin(2,1)])
  have frames: "run (bnd (send_frames cr (total_frames bin) [] 0 (chunks 127 bin)) g)
      (on Device (b_acks b @ b_digest b @ ys)
        (poll_answers (expected_bytes (total_frames bin)) @ T) K) =
    run (g (Inr ())) (on Device ys T (K @ map (\<lambda>c. Out Device (load_frame c)) (chunks 127 bin) @
      poll_events (expected_bytes (total_frames bin)) @ [In Device (b_acks b), In Device (b_digest b)]))"
    for K g
    by (rule on_send_frames)
       (use assms e ne chunks_small [OF bin(2)] in
         \<open>auto simp: boot_ok_def total_frames_eq concat_chunks chunks_step\<close>)
  show ?thesis
    using assms
    by (simp add: load_app_def on_simps frames boot_ok_def load_events_def request_events_def)
qed

subsection \<open>Authentication\<close>

definition tty_events :: "event list" where
  "tty_events = map (\<lambda>y. Got (Tty y) AOk)
     [OpenTty ''/dev/ttyACM0'', TermiosFromFd, TcSetAttr, FcntlSetFl, TcGets2, TcSets2 62500, TryClone]"

lemma on_tkey_new [on_simps]:
  "run (bnd tkey_new f) (on q I (replicate 7 AOk @ T) H) = run (f (Inr ())) (on q I T (H @ tty_events))"
  by (simp add: tkey_new_def on_simps tty_events_def numeral_eq_Suc)

lemma on_get_chacha20_cipher [on_simps]:
  assumes "length en = 12" "length tp = 32" "length seed = 32"
    "chacha cr (x_dh cr (x_secret cr seed) tp) en = Some stream"
  shows "run (bnd (get_chacha20_cipher cr nonce) f) (on Device (en @ tp @ ys) (ABytes seed # T) H) =
    run (f (Inr (\<lparr>ks = stream, cpos = 0\<rparr>,
        challange nonce (x_public cr (x_secret cr seed)) tp en)))
      (on Device ys T (H @ [In Device en, Got (GetRandom 32) (ABytes seed),
        Out Device (x_public cr (x_secret cr seed)), In Device tp]))"
  using assms by (simp add: get_chacha20_cipher_def on_simps Let_def)

text \<open>The TPM answers every call; the last one with a signature, or with a failure (its PCRs differ).\<close>

record tpm_answers =
  t_digest :: bytes
  t_r :: bytes
  t_s :: bytes

fun tpm_tape :: "tpm_answers \<Rightarrow> gate \<Rightarrow> ans list" where
  "tpm_tape t (Signed sig) = replicate 8 AOk @ [ABytes (t_digest t), ASig (t_r t) (t_s t)]"
| "tpm_tape t Touched = replicate 8 AOk @ [ABytes (t_digest t), AErr]"

declare tpm_tape.simps [simp del]

definition tpm_events :: "bytes \<Rightarrow> tpm_answers \<Rightarrow> gate \<Rightarrow> event list" where
  "tpm_events ticket t g =
    [Got (Tpm (NewContext ''device:/dev/tpmrm0'')) AOk, Got (Tpm StartAuthSession) AOk,
     Got (Tpm (BuildPcrs pcr_slots)) AOk, Got (Tpm ToPolicySession) AOk,
     Got (Tpm (PolicyPcr pcr_slots)) AOk, Got (Tpm (ToHandle persistent_handle)) AOk,
     Got (Tpm (TrFromPublic persistent_handle)) AOk, Got (Tpm (ToMaxBuffer ticket)) AOk,
     Got (Tpm (HashSha256 ticket)) (ABytes (t_digest t)), Did (Tpm SetSessions),
     Got (Tpm (Sign (t_digest t))) (case g of Signed sig \<Rightarrow> ASig (t_r t) (t_s t) | Touched \<Rightarrow> AErr)]"

definition tpm_gives :: "tpm_answers \<Rightarrow> gate \<Rightarrow> bool" where
  "tpm_gives t g \<longleftrightarrow> (case g of Signed sig \<Rightarrow> pack_sig (t_r t) (t_s t) = Some sig | Touched \<Rightarrow> True)"

definition verify_answer :: "gate \<Rightarrow> box_error + bytes" where
  "verify_answer g = (case g of Signed sig \<Rightarrow> Inr sig | Touched \<Rightarrow> Inl (BoxLib ''tss_esapi''))"

lemma on_verify [on_simps]:
  assumes "tpm_gives t g"
  shows "run (bnd (verify ticket) f) (on q I (tpm_tape t g @ T) H) =
    run (f (verify_answer g)) (on q I T (H @ tpm_events ticket t g))"
  using assms
  by (cases g)
     (simp_all add: verify_def on_simps tpm_tape.simps tpm_events_def tpm_gives_def verify_answer_def numeral_eq_Suc)

definition trusted :: "gate \<Rightarrow> bool" where
  "trusted g = (case g of Signed sig \<Rightarrow> True | Touched \<Rightarrow> False)"

definition gate_out :: "gate \<Rightarrow> event list" where
  "gate_out g = (case g of
     Signed sig \<Rightarrow> [Out Device [0x97], Out Device sig] | Touched \<Rightarrow> [Out Device [0x90]])"

text \<open>Everything the host meets on its way to the first passphrase.\<close>

definition h_pub :: "crypto \<Rightarrow> bytes \<Rightarrow> bytes" where
  "h_pub cr seed = x_public cr (x_secret cr seed)"

definition ticket_of :: "crypto \<Rightarrow> device_secrets \<Rightarrow> bytes \<Rightarrow> bytes" where
  "ticket_of cr d seed = challange (d_nonce d) (h_pub cr seed) (d_pub cr d) (d_enc_nonce d)"

definition auth_answers :: "bytes \<Rightarrow> bytes \<Rightarrow> tpm_answers \<Rightarrow> gate \<Rightarrow> ans list" where
  "auth_answers bin seed t g = replicate 7 AOk @
     poll_answers (expected_bytes (total_frames bin)) @ [ABytes seed] @ tpm_tape t g"

definition boot_bytes :: "boot_answers \<Rightarrow> bytes" where
  "boot_bytes b = b_resp b @ b_acks b @ b_digest b"

definition auth_events :: "crypto \<Rightarrow> bytes \<Rightarrow> boot_answers \<Rightarrow> device_secrets \<Rightarrow> bytes \<Rightarrow> tpm_answers \<Rightarrow>
    gate \<Rightarrow> event list" where
  "auth_events cr bin b d seed t g = tty_events @ load_events bin b @ [In Device (d_nonce d)] @
     [In Device (d_enc_nonce d), Got (GetRandom 32) (ABytes seed), Out Device (h_pub cr seed),
      In Device (d_pub cr d)] @
     tpm_events (ticket_of cr d seed) t g @ gate_out g @ [In Device [gate_reply g]]"

lemma on_auth:
  assumes cr: "crypto_ok cr" and d: "secrets_ok d" and seed: "length seed = 32"
    and b: "boot_ok cr bin b" and t: "tpm_gives t g"
    and stream: "chacha cr (x_dh cr (x_secret cr seed) (d_pub cr d)) (d_enc_nonce d) = Some stream"
  shows "run (bnd (auth_with_tkey_and_tpm cr bin) f)
      (on Device (boot_bytes b @ hello cr d @ gate_reply g # ys) (auth_answers bin seed t g @ T) H) =
    run (f (Inr (trusted g, \<lparr>ks = stream, cpos = 0\<rparr>)))
      (on Device ys T (H @ auth_events cr bin b d seed t g))"
proof -
  have len: "length (d_nonce d) = 32" "length (d_enc_nonce d) = 12" "length (d_pub cr d) = 32"
    using d crypto_okD(1) [OF cr] by (simp_all add: secrets_ok_def d_pub_def)
  show ?thesis
    using t
    by (cases g)
       (simp_all add: auth_with_tkey_and_tpm_def boot_bytes_def hello_def auth_answers_def on_simps
         on_load_app [OF b] len seed stream verify_answer_def read_verdict_def auth_events_def
         gate_out_def trusted_def ticket_of_def h_pub_def client_message_try_from_def)
qed

subsection \<open>Unlocking\<close>

text \<open>
  A try: what systemd-ask-password printed (the passphrase and a newline), and the exit code
  of cryptsetup. \<open>pass_hash\<close> is the Argon2 hash of the passphrase.
\<close>

definition pass_hash :: "crypto \<Rightarrow> config \<Rightarrow> bytes \<Rightarrow> bytes" where
  "pass_hash cr cfg pass = the (hash_password cr cfg (take (length pass - 1) pass))"

definition usable :: "crypto \<Rightarrow> config \<Rightarrow> bytes \<Rightarrow> bool" where
  "usable cr cfg pass \<longleftrightarrow> 9 \<le> length pass \<and> hash_password cr cfg (take (length pass - 1) pass) \<noteq> None"

definition sealed_hash :: "crypto \<Rightarrow> config \<Rightarrow> cipher \<Rightarrow> bytes \<Rightarrow> bytes" where
  "sealed_hash cr cfg c pass = fst (crypt c (pass_hash cr cfg pass))"

definition derived_key :: "crypto \<Rightarrow> config \<Rightarrow> bytes \<Rightarrow> bytes \<Rightarrow> bytes" where
  "derived_key cr cfg cdi pass = blake2s_fw cr cdi (pass_hash cr cfg pass)"

definition sealed_key :: "crypto \<Rightarrow> config \<Rightarrow> bytes \<Rightarrow> cipher \<Rightarrow> bytes \<Rightarrow> bytes" where
  "sealed_key cr cfg cdi c pass = fst (crypt (advance 32 c) (derived_key cr cfg cdi pass))"

definition verdict_byte :: "int option \<Rightarrow> byte" where
  "verdict_byte code = (if code = Some 0 then 0x99 else 0x98)"

definition ask_events :: "crypto \<Rightarrow> config \<Rightarrow> bool \<Rightarrow> cipher \<Rightarrow> bytes \<Rightarrow> event list" where
  "ask_events cr cfg trustworthy c pass =
    [Got (Output ''/usr/bin/systemd-ask-password'' [if trustworthy then prompt_trusted else prompt_untrusted])
       (ABytes pass),
     Did (Zeroize ''pass_len''), Did (Zeroize ''passphrase_bytes''), Did (Keystream (cpos c) 32),
     Did (Zeroize ''hashed_pass''), Out Device (sealed_hash cr cfg c pass),
     Did (Zeroize ''actual_pass_len''), In Device [0x21]]"

definition open_events :: "config \<Rightarrow> cipher \<Rightarrow> bytes \<Rightarrow> bytes \<Rightarrow> int option \<Rightarrow> event list" where
  "open_events cfg c sealed key code =
    [In Device sealed, Got (Child (Spawn ''/usr/bin/cryptsetup'' (cryptsetup_open_args cfg))) AOk,
     Got (Child TakeStdin) AOk, Did (Keystream (cpos c) 32), Got (Child (ChildWrite key)) AOk,
     Did (Zeroize ''keyfile''), Did (Child DropStdin), Got (Child ChildWait) (ACode code),
     Out Device [verdict_byte code]]"

definition try_answers :: "bytes \<Rightarrow> int option \<Rightarrow> ans list" where
  "try_answers pass code = [ABytes pass, AOk, AOk, AOk, ACode code]"

lemma length_pass_hash: "crypto_ok cr \<Longrightarrow> usable cr cfg pass \<Longrightarrow> length (pass_hash cr cfg pass) = 32"
  by (auto simp: usable_def pass_hash_def hash_password_def crypto_okD)

lemma on_ask_for_password:
  assumes "crypto_ok cr" "usable cr cfg pass"
  shows "run (bnd (ask_for_password cr cfg (Suc fuel) tr c) f) (on Device (0x21 # ys) (ABytes pass # T) H) =
    run (f (Inr (advance 32 c))) (on Device ys T (H @ ask_events cr cfg tr c pass))"
proof -
  obtain hp where hp: "hash_password cr cfg (take (length pass - 1) pass) = Some hp"
    using assms(2) by (auto simp: usable_def)
  have len: "length hp = 32" using length_pass_hash [OF assms] unfolding pass_hash_def hp by simp
  have "\<not> length pass < 9" using assms(2) by (simp add: usable_def)
  with hp [simplified] len show ?thesis
    by (simp add: on_simps Let_def crypt_def ask_events_def sealed_hash_def pass_hash_def advance_def
        client_message_try_from_def)
qed

declare ask_for_password.simps(2) [simp del]

lemma on_decrypt:
  assumes "length sealed = 32" "fst (crypt c sealed) = key"
  shows "run (bnd (decrypt cfg c) f)
      (on Device (sealed @ ys) (AOk # AOk # AOk # ACode code # T) H) =
    run (f (if code = Some 0 then Inr (advance 32 c)
            else Inl (if code = None then CryptsetupKilled else CryptsetupErr, advance 32 c)))
      (on Device ys T (H @ open_events cfg c sealed key code))"
  using assms
  by (cases code)
     (auto simp: decrypt_def on_simps Let_def open_events_def crypt_def advance_def verdict_byte_def)

text \<open>What the TKey sends, and what happens, over several tries.\<close>

fun tries_in :: "crypto \<Rightarrow> config \<Rightarrow> bytes \<Rightarrow> cipher \<Rightarrow> (bytes \<times> int option) list \<Rightarrow> bytes" where
  "tries_in cr cfg cdi c [] = []"
| "tries_in cr cfg cdi c ((pass, code) # ts) =
     0x22 # 0x21 # sealed_key cr cfg cdi c pass @ tries_in cr cfg cdi (advance 64 c) ts"

fun tries_answers :: "(bytes \<times> int option) list \<Rightarrow> ans list" where
  "tries_answers [] = []"
| "tries_answers ((pass, code) # ts) = try_answers pass code @ tries_answers ts"

definition try_events :: "crypto \<Rightarrow> config \<Rightarrow> bytes \<Rightarrow> bool \<Rightarrow> cipher \<Rightarrow> bytes \<Rightarrow> int option \<Rightarrow>
    event list" where
  "try_events cr cfg cdi tr c pass code = In Device [0x22] # ask_events cr cfg tr c pass @
     open_events cfg (advance 32 c) (sealed_key cr cfg cdi c pass) (derived_key cr cfg cdi pass) code"

fun tries_events :: "crypto \<Rightarrow> config \<Rightarrow> bytes \<Rightarrow> bool \<Rightarrow> cipher \<Rightarrow> (bytes \<times> int option) list \<Rightarrow>
    event list" where
  "tries_events cr cfg cdi tr c [] = []"
| "tries_events cr cfg cdi tr c ((pass, code) # ts) =
     try_events cr cfg cdi tr c pass code @ tries_events cr cfg cdi tr (advance 64 c) ts"

fun tries_end :: "nat \<Rightarrow> (bytes \<times> int option) list \<Rightarrow> exit_code option" where
  "tries_end n [] = (if n = 0 then Some Failure else None)"
| "tries_end n ((pass, code) # ts) =
     (if n = 0 then None
      else if code = Some 0 then (if ts = [] then Some Success else None)
      else tries_end (n - 1) ts)"

lemma on_try:
  assumes "crypto_ok cr" "usable cr cfg pass" "tries \<le> 3"
  shows "run (bnd (tries_loop cr cfg (Suc fuel) tr tries c) f)
      (on Device (0x22 # 0x21 # sealed_key cr cfg cdi c pass @ ys) (try_answers pass code @ T) H) =
    run (bnd (if code = Some 0 then Ret (Inr Success)
              else tries_loop cr cfg (Suc fuel) tr (tries + 1) (advance 64 c)) f)
      (on Device ys T (H @ try_events cr cfg cdi tr c pass code))"
proof -
  have key: "length (derived_key cr cfg cdi pass) = 32" using crypto_okD(3) [OF assms(1)]
    by (simp add: derived_key_def)
  have dec: "fst (crypt (advance 32 c) (sealed_key cr cfg cdi c pass)) = derived_key cr cfg cdi pass"
    "length (sealed_key cr cfg cdi c pass) = 32"
    using key by (simp_all add: sealed_key_def session.inverse)
  have adv: "advance 32 (advance 32 c) = advance 64 c" by (simp add: advance_def)
  have "\<not> 3 < tries" using assms(3) by simp
  then show ?thesis
    by (subst tries_loop.simps)
       (auto simp: on_simps on_ask_for_password [OF assms(1,2)] on_decrypt [OF dec(2,1)] try_answers_def
         client_message_try_from_def try_events_def adv)
qed

lemma on_tries_loop:
  assumes "crypto_ok cr"
  shows "tries_end (4 - tries) ts = Some code \<Longrightarrow> tries \<le> 4 \<Longrightarrow> \<forall>(p, k) \<in> set ts. usable cr cfg p \<Longrightarrow>
    run (bnd (tries_loop cr cfg (Suc fuel) tr tries c) f)
      (on Device (tries_in cr cfg cdi c ts @ ys) (tries_answers ts @ T) H) =
    run (f (Inr code)) (on Device ys T (H @ tries_events cr cfg cdi tr c ts))"
proof (induction ts arbitrary: tries c H)
  case Nil
  then show ?case by (subst tries_loop.simps) (auto split: if_splits)
next
  case (Cons a ts)
  obtain pass k where a: "a = (pass, k)" by (cases a)
  with Cons.prems have n: "tries \<le> 3" "usable cr cfg pass" by (auto split: if_splits)
  note eq = on_try [OF assms n(2,1)]
  show ?case
  proof (cases "k = Some 0")
    case True
    with Cons.prems n show ?thesis by (auto simp: a eq split: if_splits)
  next
    case False
    have "4 - tries - 1 = 4 - (tries + 1)" using n(1) by simp
    with Cons.prems n False have "tries_end (4 - (tries + 1)) ts = Some code"
      by (simp add: a del: diff_Suc_1' diff_diff_left split: if_splits)
    with Cons.IH [OF this] n False Cons.prems(3) show ?thesis by (simp add: a eq)
  qed
qed

text \<open>The whole program.\<close>

definition host_answers :: "bytes \<Rightarrow> bytes \<Rightarrow> tpm_answers \<Rightarrow> gate \<Rightarrow> (bytes \<times> int option) list \<Rightarrow> ans list" where
  "host_answers bin seed t g ts =
     [AOk, ABool True, ABytes bin] @ auth_answers bin seed t g @ tries_answers ts"

definition mount_events :: "config \<Rightarrow> bytes \<Rightarrow> event list" where
  "mount_events cfg bin = [Got (CreateDirAll ''/mnt/boot'') AOk,
     Got (Status ''/usr/bin/mount'' [boot_device cfg, ''/mnt/boot'']) (ABool True),
     Got (ReadFile ''/mnt/boot/client'') (ABytes bin)]"

lemma on_host_main:
  assumes cr: "crypto_ok cr" and d: "secrets_ok d" and seed: "length seed = 32"
    and b: "boot_ok cr bin b" and t: "tpm_gives t g"
    and stream: "chacha cr (x_dh cr (x_secret cr seed) (d_pub cr d)) (d_enc_nonce d) = Some stream"
    and ts: "tries_end 3 ts = Some code" "\<forall>(p, k) \<in> set ts. usable cr cfg p"
  shows "run (host_main cr cfg (Suc fuel))
      (on Device (boot_bytes b @ hello cr d @ gate_reply g # tries_in cr cfg cdi \<lparr>ks = stream, cpos = 0\<rparr> ts)
        (host_answers bin seed t g ts) H) =
    (Ret (Inr code), on Device [] [] (H @ mount_events cfg bin @ auth_events cr bin b d seed t g @
       tries_events cr cfg cdi (trusted g) \<lparr>ks = stream, cpos = 0\<rparr> ts))"
proof -
  note loop = on_tries_loop [OF cr, of 1 ts code cfg fuel "trusted g" "\<lparr>ks = stream, cpos = 0\<rparr>" Ret cdi
      "[]" "[]", simplified, OF ts]
  show ?thesis
    by (simp add: host_main_def host_answers_def on_simps on_auth [OF cr d seed b t stream] loop
        mount_events_def)
qed

end
