(* ===== verification/QubesSafety.thy ===== *)
theory QubesSafety
  imports HostSafety Phases
begin

text \<open>
  dom0's verify (host/src/bin/verify.rs) against every VM: one guard on its events
  (\<open>dom0_ok\<close>), and the exact effect of \<open>enroll\<close> on the bytes it is sent; and on the VM's
  side (host/src/bin/qubes_enroll.rs) the command line and the forwarding of the TPM's answer.
\<close>

subsection \<open>The guard of dom0\<close>

text \<open>
  The messages in the order they are read: the ticket, the length of the passphrase, the
  passphrase, the new keyfile, the slot.
\<close>

definition dom0_ok :: "config \<Rightarrow> event \<Rightarrow> event list \<Rightarrow> bool" where
  "dom0_ok cfg e h = (case e of
     Got a x \<Rightarrow> (case a of
       Tpm c \<Rightarrow> (case c of
         Sign digest \<Rightarrow> received h \<noteq> [] \<and> policy_bound (hd (received h)) digest h | _ \<Rightarrow> True)
     | Child c \<Rightarrow> (case c of
         Spawn prog as \<Rightarrow> exits h = [] \<and> (\<exists>n. as = luks_add_key_args cfg n) \<or>
           exits h = [Some 0] \<and> (\<exists>slot. slot \<noteq> 0x91 \<and> last (received h) = [slot] \<and>
             as = luks_kill_slot_args cfg slot)
       | ChildWrite k \<Rightarrow> exits h = [] \<or> 3 < length (received h) \<and> k = received h ! 3
       | _ \<Rightarrow> True)
     | _ \<Rightarrow> True)
   | Out p bs \<Rightarrow> bs = [0x99] \<longrightarrow> exits h = [Some 0]
   | _ \<Rightarrow> True)"

lemma dom0_ok_simps [simp]:
  "dom0_ok cfg (Got (Tpm (Sign digest)) x) h \<longleftrightarrow>
     received h \<noteq> [] \<and> policy_bound (hd (received h)) digest h"
  "dom0_ok cfg (Got (Child (Spawn prog as)) x) h \<longleftrightarrow> exits h = [] \<and> (\<exists>n. as = luks_add_key_args cfg n) \<or>
     exits h = [Some 0] \<and> (\<exists>slot. slot \<noteq> 0x91 \<and> last (received h) = [slot] \<and>
       as = luks_kill_slot_args cfg slot)"
  "dom0_ok cfg (Got (Child (ChildWrite k)) x) h \<longleftrightarrow>
     exits h = [] \<or> 3 < length (received h) \<and> k = received h ! 3"
  "dom0_ok cfg (Out p bs) h \<longleftrightarrow> (bs = [0x99] \<longrightarrow> exits h = [Some 0])"
  "dom0_ok cfg (In p bs) h" "dom0_ok cfg (InFail p) h" "dom0_ok cfg (Did a) h"
  "dom0_ok cfg (Got (LogCreate d) x) h" "dom0_ok cfg (Got (LogWrite d) x) h"
  "dom0_ok cfg (Got (Flush q) x) h" "dom0_ok cfg (Got (Child TakeStdin) x) h"
  "dom0_ok cfg (Got (Child ChildWait) x) h"
  "dom0_ok cfg (Got (Tpm (NewContext d)) x) h" "dom0_ok cfg (Got (Tpm StartAuthSession) x) h"
  "dom0_ok cfg (Got (Tpm (BuildPcrs ns)) x) h" "dom0_ok cfg (Got (Tpm ToPolicySession) x) h"
  "dom0_ok cfg (Got (Tpm (PolicyPcr ns)) x) h" "dom0_ok cfg (Got (Tpm (ToHandle w)) x) h"
  "dom0_ok cfg (Got (Tpm (TrFromPublic w)) x) h" "dom0_ok cfg (Got (Tpm (ToMaxBuffer b)) x) h"
  "dom0_ok cfg (Got (Tpm (HashSha256 b)) x) h"
  by (simp_all add: dom0_ok_def)

abbreviation dom0_wp ::
  "config \<Rightarrow> 'a proc \<Rightarrow> ('a \<Rightarrow> event list \<Rightarrow> bool) \<Rightarrow> event list \<Rightarrow> bool" where
  "dom0_wp cfg \<equiv> wp (guarded (\<lambda>_. True) (dom0_ok cfg)) (\<lambda>_ _. False)"

definition dom0_post :: "box_error + exit_code \<Rightarrow> event list \<Rightarrow> bool" where
  "dom0_post r h \<longleftrightarrow> (case r of
     Inr v \<Rightarrow> v = Success \<and> (exits h = [Some 0] \<and> last (received h) = [0x91] \<or>
       exits h = [Some 0, Some 0] \<and> last (received h) \<noteq> [0x91])
   | Inl e \<Rightarrow> True)"

definition enrolled_post :: "host_err + unit \<Rightarrow> event list \<Rightarrow> bool" where
  "enrolled_post r h \<longleftrightarrow> r = Inr () \<longrightarrow>
     exits h = [Some 0] \<and> last (received h) = [0x91] \<or>
     exits h = [Some 0, Some 0] \<and> last (received h) \<noteq> [0x91]"

lemma enrolled_post_simps [simp]:
  "enrolled_post (Inl e) h"
  "enrolled_post (Inr ()) h \<longleftrightarrow> exits h = [Some 0] \<and> last (received h) = [0x91] \<or>
     exits h = [Some 0, Some 0] \<and> last (received h) \<noteq> [0x91]"
  by (simp_all add: enrolled_post_def)

lemma dom0_kill_slot_wp:
  assumes "exits h = [Some 0]" "received h = [t, l, p, keyfile, [slot]]" "slot \<noteq> 0x91"
  shows "dom0_wp cfg (dom0_kill_slot cfg keyfile slot) enrolled_post h"
  using assms by (auto simp: dom0_kill_slot_def wp_simps)

lemma dom0_enroll_wp:
  assumes "exits h = []" "received h = [t]"
  shows "dom0_wp cfg (dom0_enroll cfg) enrolled_post h"
  using assms
  by (auto simp: dom0_enroll_def wp_simps length_Suc_conv Ex_list_of_length numeral_eq_Suc
      intro!: dom0_kill_slot_wp split: option.splits)

definition verified_post :: "bytes \<Rightarrow> box_error + bytes \<Rightarrow> event list \<Rightarrow> bool" where
  "verified_post t r h \<longleftrightarrow> exits h = [] \<and> received h = [t] \<and> (case r of Inr sig \<Rightarrow> length sig = 64 | Inl e \<Rightarrow> True)"

lemma verify_dom0_wp:
  "exits h = [] \<Longrightarrow> received h = [t] \<Longrightarrow> dom0_wp cfg (verify t) (verified_post t) h"
  by (auto simp: verify_def wp_simps policy_bound_def verified_post_def length_pack_sig split: option.splits)

lemma dom0_main_wp: "dom0_wp cfg (dom0_main io_fmt lib_fmt cfg) dom0_post []"
proof -
  have answer: "dom0_wp cfg (bnd (verify t) (\<lambda>r.
      (case r of
         Inr s \<Rightarrow>
           tryq BoxIo (write_all Host [host_message_u8 TpmSigned]) (\<lambda>_.
           tryq BoxIo (write_all Host s) (\<lambda>_.
           tryq BoxIo (sys (Flush Host)) (\<lambda>_.
           Ret (Inr ()))))
       | Inl e \<Rightarrow>
           tryq BoxIo (sys (LogWrite ''tpm refused to unseal'')) (\<lambda>_.
           tryq BoxIo (sys (LogWrite (box_error_fmt io_fmt lib_fmt e))) (\<lambda>_.
           tryq BoxIo (sys (LogWrite ''moving on this is only meant to happen if you're updating.'')) (\<lambda>_.
           tryq BoxIo (write_all Host [host_err_u8 TpmRefusedToSign]) (\<lambda>_.
           tryq BoxIo (sys (Flush Host)) (\<lambda>_.
           Ret (Inr ())))))))))
      (\<lambda>_ h'. exits h' = [] \<and> received h' = [t]) h" if "exits h = []" "received h = [t]" for t h
    by (rule wp_bndI [OF verify_dom0_wp [OF that]])
       (auto simp: wp_simps verified_post_def split: sum.splits)
  have rest: "dom0_wp cfg (tryq BoxHost (dom0_enroll cfg) (\<lambda>_.
      tryq BoxIo (sys (LogWrite ''success!'')) (\<lambda>_. Ret (Inr Success)))) dom0_post h"
    if "exits h = []" "received h = [t]" for t h
    by (rule wp_tryqI [OF dom0_enroll_wp [OF that]]) (auto simp: wp_simps dom0_post_def)
  show ?thesis
    unfolding dom0_main_def wp_tryq [where c = BoxIo]
    by (auto simp: wp_read_exact wp_sys allows_guarded dom0_post_def
        intro!: wp_tryqI [OF answer] rest)
qed

interpretation dom0: guarded_program "\<lambda>_. True" "dom0_ok cfg" "\<lambda>_ _. False"
    "dom0_main io_fmt lib_fmt cfg" dom0_post for cfg io_fmt lib_fmt
  by unfold_locales (rule dom0_main_wp)

definition dom0_trace ::
  "(io_error \<Rightarrow> string) \<Rightarrow> (string \<Rightarrow> string) \<Rightarrow> config \<Rightarrow> env \<Rightarrow> event list" where
  "dom0_trace io_fmt lib_fmt cfg s = trace (snd (run (dom0_main io_fmt lib_fmt cfg) (s\<lparr>trace := []\<rparr>)))"

lemma dom0_guard:
  assumes "dom0_trace io_fmt lib_fmt cfg s = xs @ e # ys"
  shows "dom0_ok cfg e xs"
  using dom0.guard_holds [of "s\<lparr>trace := []\<rparr>" io_fmt lib_fmt cfg xs e ys] assms
  by (simp add: dom0_trace_def)

subsection \<open>The enrollment messages\<close>

definition enrollment_frame :: "bytes \<Rightarrow> bytes \<Rightarrow> bytes" where
  "enrollment_frame pass key = [of_nat (length pass)] @ pass @ key"

lemma send_enrollment_sends:
  assumes "utf8_valid pass"
  shows "sent Dom0 (trace (snd (run (send_enrollment c ek) (on Dom0 [0x99] [ABytes pass, AOk] [])))) =
    enrollment_frame pass (fst (crypt c ek))"
  using assms
  by (simp add: send_enrollment_def on_simps Let_def crypt_def enrollment_frame_def host_message_try_from_def)

text \<open>What dom0 gives to cryptsetup's stdin.\<close>

definition stdin_writes :: "event list \<Rightarrow> bytes list" where
  "stdin_writes h = concat (map (\<lambda>e. case e of
     Got a x \<Rightarrow> (case a of Child c \<Rightarrow> (case c of ChildWrite k \<Rightarrow> [k] | _ \<Rightarrow> []) | _ \<Rightarrow> []) | _ \<Rightarrow> []) h)"

lemma stdin_writes_simps [simp]:
  "stdin_writes [] = []"
  "stdin_writes (e # h) = (case e of
     Got a x \<Rightarrow> (case a of Child c \<Rightarrow> (case c of ChildWrite k \<Rightarrow> k # stdin_writes h | _ \<Rightarrow> stdin_writes h)
       | _ \<Rightarrow> stdin_writes h) | _ \<Rightarrow> stdin_writes h)"
  by (auto simp: stdin_writes_def split: event.splits act.splits child_op.splits)

definition adding_events :: "config \<Rightarrow> byte \<Rightarrow> bytes \<Rightarrow> bytes \<Rightarrow> event list" where
  "adding_events cfg n p k = [In Host [n], In Host p,
     Got (Child (Spawn ''/usr/sbin/cryptsetup'' (luks_add_key_args cfg (unat n)))) AOk,
     Got (Child TakeStdin) AOk, Got (Child (ChildWrite p)) AOk, In Host k,
     Got (Child (ChildWrite k)) AOk]"

lemma dom0_enroll_waits:
  assumes "length p = unat n" "utf8_valid p" "length k = 32"
  shows "trace (snd (run (dom0_enroll cfg) (on Host (n # p @ k @ rest) [AOk, AOk, AOk, AOk] []))) =
    adding_events cfg n p k"
  using assms by (simp add: dom0_enroll_def on_simps adding_events_def)

lemma dom0_enroll_run:
  assumes "length p = unat n" "utf8_valid p" "length k = 32"
  shows "run (dom0_enroll cfg) (on Host (n # p @ k @ [0x91]) [AOk, AOk, AOk, AOk, ACode (Some 0), AOk] []) =
    (Ret (Inr ()), on Host [] [] (adding_events cfg n p k @ [Got (Child ChildWait) (ACode (Some 0)),
       Out Host [0x99], Got (Flush Host) AOk, In Host [0x91]]))"
  using assms by (simp add: dom0_enroll_def on_simps adding_events_def)

subsection \<open>Properties of dom0\<close>

text \<open>A session for the witnesses, in which slot 3 is killed.\<close>

definition demo_disk :: config where
  "demo_disk = \<lparr>luks_uuid = ''luks'', boot_device = ''boot'', encrypted_disk = ''disk'', salt = zeros 16\<rparr>"

definition demo_dom0 :: env where
  "demo_dom0 = start (\<lambda>_. zeros 108 @ [1, 0x61] @ zeros 32 @ [3])
     ([AOk] @ good_tpm (zeros 32) (zeros 32) (zeros 32) @ [AOk, AOk, AOk, AOk, AOk, ACode (Some 0), AOk,
       AOk, AOk, AOk, ACode (Some 0), AOk, AOk, AOk])"

definition demo_dom0_trace :: "event list" where
  "demo_dom0_trace = dom0_trace (\<lambda>_. []) id demo_disk demo_dom0"

fun is_kill :: "event \<Rightarrow> bool" where
  "is_kill (Got a x) = (case a of Child c \<Rightarrow> (case c of Spawn p as \<Rightarrow> hd as = ''luksKillSlot'' | _ \<Rightarrow> False) | _ \<Rightarrow> False)"
| "is_kill _ = False"

text \<open>
  Property C15. dom0 kills a keyslot only after luksAddKey of the new key has ended with exit
  code 0, only the slot the VM named last, and never for the byte 0x91. Before that, every
  command it starts is luksAddKey on the configured disk. Whatever it writes to a command
  after that is the keyfile that was just added (the fourth message).
\<close>

theorem dom0_kills_only_after_adding:
  assumes "dom0_trace io_fmt lib_fmt cfg s = xs @ Got (Child c) x # ys"
  shows "case c of
     Spawn prog args \<Rightarrow> (if exits xs = [] then \<exists>n. args = luks_add_key_args cfg n
       else exits xs = [Some 0] \<and> (\<exists>slot. slot \<noteq> 0x91 \<and> last (received xs) = [slot] \<and>
         args = luks_kill_slot_args cfg slot))
   | ChildWrite k \<Rightarrow> (if exits xs = [] then True else k = received xs ! 3)
   | _ \<Rightarrow> True"
  using dom0_guard [OF assms] by (cases c) auto

theorem dom0_kills_only_after_adding_witness:
  "exits (takeWhile (\<lambda>e. \<not> is_kill e) demo_dom0_trace) = [Some 0]"
proof -
  have "dom0_trace (\<lambda>_. []) id demo_disk demo_dom0 = takeWhile (\<lambda>e. \<not> is_kill e) demo_dom0_trace @
      Got (Child (Spawn ''/usr/sbin/cryptsetup'' (luks_kill_slot_args demo_disk 3))) AOk #
      tl (dropWhile (\<lambda>e. \<not> is_kill e) demo_dom0_trace)"
    by code_simp
  from dom0_kills_only_after_adding [OF this] show ?thesis
    by (auto simp: luks_kill_slot_args_def luks_add_key_args_def split: if_splits)
qed

text \<open>
  Property C29. dom0 lets the TPM sign only the VM's first message, under the PCR policy, and
  reports DecryptionSuccess only after luksAddKey ended with exit code 0.
\<close>

theorem dom0_answers_truthfully:
  assumes "dom0_trace io_fmt lib_fmt cfg s = xs @ e # ys"
  shows "case e of
     Got a x \<Rightarrow> (case a of Tpm c \<Rightarrow> (case c of
         Sign digest \<Rightarrow> received xs \<noteq> [] \<and> policy_bound (hd (received xs)) digest xs | _ \<Rightarrow> True)
       | _ \<Rightarrow> True)
   | Out p bs \<Rightarrow> if bs = [0x99] then exits xs = [Some 0] else True
   | _ \<Rightarrow> True"
  using dom0_guard [OF assms] by (auto simp: dom0_ok_def split: event.splits act.splits tpm_cmd.splits)

theorem dom0_answers_truthfully_witness:
  "\<exists>xs digest x ys. demo_dom0_trace = xs @ Got (Tpm (Sign digest)) x # ys \<and>
     policy_bound (hd (received xs)) digest xs"
proof -
  have "dom0_trace (\<lambda>_. []) id demo_disk demo_dom0 = take 12 demo_dom0_trace @
      Got (Tpm (Sign (zeros 32))) (ASig (zeros 32) (zeros 32)) # drop 13 demo_dom0_trace"
    by code_simp
  from dom0_answers_truthfully [OF this] this show ?thesis
    unfolding demo_dom0_trace_def [symmetric] by auto
qed

text \<open>
  Property C30. dom0's verify never panics, and it exits successfully only if luksAddKey
  succeeded and, unless the slot byte was 0x91, luksKillSlot succeeded as well.
\<close>

theorem dom0_exit_code:
  "case run (dom0_main io_fmt lib_fmt cfg) (s\<lparr>trace := []\<rparr>) of
     (Ret r, s') \<Rightarrow> dom0_post r (trace s')
   | (Halt h, s') \<Rightarrow> False
   | _ \<Rightarrow> True"
  using dom0.returned_history [of "s\<lparr>trace := []\<rparr>" io_fmt lib_fmt cfg]
    dom0.halted_history [of "s\<lparr>trace := []\<rparr>" io_fmt lib_fmt cfg]
  by (auto split: prod.splits proc.splits)

subsection \<open>Framing\<close>

text \<open>
  Property C31. The framing between the VM and dom0 is a round trip for passphrases of at most
  255 bytes: what qubes_enroll sends (one length byte, the passphrase, the decrypted keyfile)
  makes dom0 call luksAddKey with exactly the passphrase's length and give it exactly the
  passphrase and the keyfile; with exit code 0 and the slot byte 0x91 it returns Ok and
  answers DecryptionSuccess.
\<close>

theorem short_passphrase_framed:
  assumes "length pass \<le> 255" "utf8_valid pass" "length (fst (crypt c ek)) = 32"
  shows "let frame = sent Dom0 (trace (snd (run (send_enrollment c ek) (on Dom0 [0x99] [ABytes pass, AOk] []))))
   in case run (dom0_enroll cfg)
        (on Host (frame @ [0x91]) [AOk, AOk, AOk, AOk, ACode (Some 0), AOk] []) of
      (r, s') \<Rightarrow> r = Ret (Inr ()) \<and> sent Host (trace s') = [0x99] \<and>
        stdin_writes (trace s') = [pass, fst (crypt c ek)] \<and>
        Got (Child (Spawn ''/usr/sbin/cryptsetup'' (luks_add_key_args cfg (length pass)))) AOk \<in> set (trace s')"
proof -
  have n: "unat (of_nat (length pass) :: byte) = length pass"
    using assms(1) by (simp add: unsigned_of_nat take_bit_nat_eq_self)
  from dom0_enroll_run [OF n [symmetric] assms(2,3), of cfg] show ?thesis
    by (simp add: send_enrollment_sends [OF assms(2)] enrollment_frame_def Let_def adding_events_def n)
qed

theorem short_passphrase_framed_witness:
  "stdin_writes (trace (snd (run (dom0_enroll demo_disk)
     (on Host (enrollment_frame [0x61] (zeros 32) @ [0x91]) [AOk, AOk, AOk, AOk, ACode (Some 0), AOk] [])))) =
   [[0x61], zeros 32]"
proof -
  let ?c = "\<lparr>ks = (\<lambda>_. 0), cpos = 0\<rparr>"
  have c: "fst (crypt ?c (zeros 32)) = zeros 32" and u: "utf8_valid [0x61]" by code_simp+
  from short_passphrase_framed [of "[0x61]" ?c "zeros 32" demo_disk] show ?thesis
    by (simp add: c Let_def send_enrollment_sends [OF u, of ?c "zeros 32", unfolded c] split: prod.splits)
qed

text \<open>
  Property C32. Longer passphrases desynchronise the two programs, because the length is sent
  as a byte: dom0 takes only the first length mod 256 bytes as the passphrase, and gives
  luksAddKey the next 32 bytes of the passphrase as the new key, whatever key the TKey made.
\<close>

theorem long_passphrase_desyncs:
  assumes "256 \<le> length pass" "utf8_valid pass" "utf8_valid (take (length pass mod 256) pass)"
  shows "let frame = sent Dom0 (trace (snd (run (send_enrollment c ek) (on Dom0 [0x99] [ABytes pass, AOk] []))))
   in stdin_writes (trace (snd (run (dom0_enroll cfg) (on Host frame [AOk, AOk, AOk, AOk] [])))) =
     [take (length pass mod 256) pass, take 32 (drop (length pass mod 256) pass)]"
proof -
  let ?m = "length pass mod 256"
  let ?n = "of_nat (length pass) :: byte"
  have n: "unat ?n = ?m" by (simp add: unsigned_of_nat take_bit_eq_mod)
  have m: "?m < 256" by simp
  have len: "length (take ?m pass) = unat ?n" using assms(1) n by simp
  have "256 \<le> length pass - ?m"
    using assms(1) m mult_div_mod_eq [of 256 "length pass"] by (cases "length pass div 256") auto
  then have k: "length (take 32 (drop ?m pass)) = 32" by simp
  have join: "take ?m pass @ take 32 (drop ?m pass) @ drop 32 (drop ?m pass) @ z = pass @ z" for z
    by (metis append_assoc append_take_drop_id)
  have "trace (snd (run (dom0_enroll cfg) (on Host (?n # take ?m pass @ take 32 (drop ?m pass) @
      drop 32 (drop ?m pass) @ fst (crypt c ek)) [AOk, AOk, AOk, AOk] []))) =
    adding_events cfg ?n (take ?m pass) (take 32 (drop ?m pass))"
    by (rule dom0_enroll_waits [OF len assms(3) k])
  then have "trace (snd (run (dom0_enroll cfg) (on Host (?n # pass @ fst (crypt c ek)) [AOk, AOk, AOk, AOk] []))) =
    adding_events cfg ?n (take ?m pass) (take 32 (drop ?m pass))"
    unfolding join .
  then show ?thesis
    by (simp add: send_enrollment_sends [OF assms(2)] enrollment_frame_def Let_def adding_events_def)
qed

theorem long_passphrase_desyncs_witness:
  "stdin_writes (trace (snd (run (dom0_enroll demo_disk)
     (on Host (enrollment_frame (replicate 257 0x61) (zeros 32)) [AOk, AOk, AOk, AOk] [])))) =
   [[0x61], replicate 32 0x61]"
proof -
  let ?c = "\<lparr>ks = (\<lambda>_. 0), cpos = 0\<rparr>"
  have c: "fst (crypt ?c (zeros 32)) = zeros 32" by code_simp
  have ascii: "utf8_valid (replicate n 0x61)" for n by (induction n) simp_all
  have p: "length (replicate 257 (0x61 :: byte)) mod 256 = 1" "(256 :: nat) \<le> length (replicate 257 (0x61 :: byte))"
    by simp_all
  have t: "take 1 (replicate 257 (0x61 :: byte)) = [0x61]"
    "take 32 (drop 1 (replicate 257 (0x61 :: byte))) = replicate 32 0x61"
    by (simp_all add: take_replicate drop_replicate)
  have one: "utf8_valid (take (length (replicate 257 (0x61 :: byte)) mod 256) (replicate 257 0x61))"
    unfolding p(1) t(1) by simp
  from long_passphrase_desyncs [OF p(2) ascii one, of ?c "zeros 32" demo_disk] show ?thesis
    unfolding Let_def send_enrollment_sends [OF ascii] c p(1) t .
qed

subsection \<open>qubes\_enroll\<close>

text \<open>
  Property C33. The command line of qubes_enroll: \<open>--kill-slot n\<close> with a decimal number below
  32 gives that slot, every other number or text an error before anything is done, and any
  other command line no slot. A slot that is given is never the byte 0x91 that stands for
  none.
\<close>

theorem slot_argument:
  "(case slot_arg argv of
      Inr (Some slot) \<Rightarrow> slot < 32 \<and> slot \<noteq> 0x91 \<and> parse_u8 (argv ! 2) = Some slot
    | Inr None \<Rightarrow> \<not> (length argv = 3 \<and> argv ! 1 = ''--kill-slot'')
    | Inl e \<Rightarrow> length argv = 3 \<and> argv ! 1 = ''--kill-slot'' \<and>
        (case parse_u8 (argv ! 2) of None \<Rightarrow> True | Some n \<Rightarrow> 32 \<le> n))
   \<and> slot_arg [prog, ''--kill-slot'', to_string (unat slot)] =
       (if slot < 32 then Inr (Some slot)
        else Inl (BoxStr ''not a valid luks2 keyslot, number > 32.''))"
proof
  have ne: "n < 32 \<Longrightarrow> n \<noteq> 0x91" for n :: byte by auto
  show "case slot_arg argv of
      Inr (Some slot) \<Rightarrow> slot < 32 \<and> slot \<noteq> 0x91 \<and> parse_u8 (argv ! 2) = Some slot
    | Inr None \<Rightarrow> \<not> (length argv = 3 \<and> argv ! 1 = ''--kill-slot'')
    | Inl e \<Rightarrow> length argv = 3 \<and> argv ! 1 = ''--kill-slot'' \<and>
        (case parse_u8 (argv ! 2) of None \<Rightarrow> True | Some n \<Rightarrow> 32 \<le> n)"
    using ne by (auto simp: slot_arg_def Let_def not_less split: option.splits)
  have "unat slot \<le> 255" using unat_byte_less [of slot] by linarith
  from parse_u8_to_string [OF this] show "slot_arg [prog, ''--kill-slot'', to_string (unat slot)] =
       (if slot < 32 then Inr (Some slot)
        else Inl (BoxStr ''not a valid luks2 keyslot, number > 32.''))"
    by (simp add: slot_arg_def not_less)
qed

text \<open>What passing on dom0's answer may look like.\<close>

definition forwarded :: "bool \<Rightarrow> event list \<Rightarrow> bool" where
  "forwarded kill_slot h \<longleftrightarrow>
     (\<exists>sig. length sig = 64 \<and> h = [In Dom0 [0x97], In Dom0 sig, Out Device [0x97], Out Device sig]) \<or>
     (\<not> kill_slot \<and> h = [In Dom0 [0x90], Out Device [0x90]])"

definition forward_post :: "bool \<Rightarrow> box_error + unit \<Rightarrow> event list \<Rightarrow> bool" where
  "forward_post kill_slot r h \<longleftrightarrow> (case r of
     Inr _ \<Rightarrow> forwarded kill_slot h
   | Inl e \<Rightarrow> (if received h = [[0x90]] \<and> kill_slot then sent Device h = [] else True))"

lemma forward_post_simps [simp]:
  "forward_post k (Inr u) h \<longleftrightarrow> forwarded k h"
  "forward_post k (Inl e) h \<longleftrightarrow> (received h = [[0x90]] \<and> k \<longrightarrow> sent Device h = [])"
  by (auto simp: forward_post_def)

lemma host_status_iff:
  "host_message_try_from b = Inr TpmSigned \<longleftrightarrow> b = 0x97"
  "host_message_try_from b = Inl TpmRefusedToSign \<longleftrightarrow> b = 0x90"
  by (auto simp: host_message_try_from_def)

lemma forward_signature_post:
  "wp (guarded (\<lambda>_. True) (\<lambda>_ _. True)) (\<lambda>_ _. False) (forward_signature k) (forward_post k) []"
  by (auto simp: forward_signature_def wp_simps host_status_iff forwarded_def length_Suc_conv
      split: sum.splits host_message.splits host_err.splits)

text \<open>
  Property C34. Passing on dom0's answer: it succeeds only in two ways, a signature of 64 bytes
  announced by TpmSigned and handed unchanged to the TKey, or, when no slot is to be killed, a
  refusal announced to the TKey as one. With a slot to kill a refusal is an error and the TKey
  is told nothing.
\<close>

theorem refusal_stops_kill:
  "case run (forward_signature kill_slot) (s\<lparr>trace := []\<rparr>) of
     (Ret r, s') \<Rightarrow> forward_post kill_slot r (trace s')
   | (Halt h, s') \<Rightarrow> False
   | _ \<Rightarrow> True"
proof -
  obtain p s' where r: "run (forward_signature kill_slot) (s\<lparr>trace := []\<rparr>) = (p, s')" by fastforce
  from wp_sound [OF forward_signature_post r] obtain q where
    q: "mfold (guarded (\<lambda>_. True) (\<lambda>_ _. True)) [] (trace s') = Some q"
    and w: "wp (guarded (\<lambda>_. True) (\<lambda>_ _. True)) (\<lambda>_ _. False) p (forward_post kill_slot) q" by auto
  have "q = trace s'" using mfold_guarded [OF q] by simp
  with w show ?thesis unfolding r by (cases p) auto
qed

end
