(* ===== verification/Network.thy ===== *)
theory Network
  imports History
begin

text \<open>
  Several programs running at once, connected by lines that deliver bytes in order. A step
  of the network is one action of one program, and nothing is assumed about whose turn it
  is. Because each program is sequential and each line has one writer and one reader, the
  order of the steps does not matter: the locale \<open>commuting\<close> states what is needed,
  \<open>net\<close> interprets it. The other half is the tool for concrete sessions: in a final state
  every program has run to its end on exactly the bytes the others have sent
  (\<open>net_fixpoint\<close>), so sessions are computed by running the programs one at a time.
\<close>

subsection \<open>Feeding a program more bytes\<close>

definition feed :: "port \<Rightarrow> bytes \<Rightarrow> env \<Rightarrow> env" where
  "feed q bs s = s\<lparr>inbox := (inbox s)(q := inbox s q @ bs)\<rparr>"

definition healthy :: "env \<Rightarrow> bool" where
  "healthy s \<longleftrightarrow> (\<forall>q. \<not> eof s q)"

lemma feed_sel [simp]:
  "inbox (feed q bs s) = (inbox s)(q := inbox s q @ bs)" "eof (feed q bs s) = eof s"
  "quota (feed q bs s) = quota s" "tape (feed q bs s) = tape s" "trace (feed q bs s) = trace s"
  by (simp_all add: feed_def)

lemma feed_Nil [simp]: "feed q [] s = s"
  by (simp add: feed_def)

lemma feed_commute: "p \<noteq> q \<Longrightarrow> feed p bs (feed q cs s) = feed q cs (feed p bs s)"
  by (simp add: feed_def fun_upd_twist)

lemma healthy_feed [simp]: "healthy (feed q bs s) = healthy s"
  by (simp add: healthy_def)

lemma healthy_start [simp]: "healthy (start I T)"
  by (simp add: healthy_def)

lemma pstep_healthy: "pstep (p, s) = Some (p', s', out) \<Longrightarrow> healthy s \<Longrightarrow> healthy s'"
  by (cases p) (auto simp: healthy_def split: option.splits if_splits list.splits)

text \<open>A program that can act can also act, in the same way, when more bytes have arrived.\<close>

lemma pstep_feed:
  "pstep (p, s) = Some (p', s', out) \<Longrightarrow> healthy s \<Longrightarrow>
   pstep (p, feed q bs s) = Some (p', feed q bs s', out)"
  by (cases p) (auto simp: healthy_def feed_def emit_def fun_upd_twist
      split: option.splits if_splits list.splits)

text \<open>Running on more bytes is running on from where the run on fewer bytes stopped.\<close>

lemma run_feed_step:
  assumes h: "healthy s"
    and "\<And>p' s' out. pstep (p, s) = Some (p', s', out) \<Longrightarrow> healthy s' \<Longrightarrow>
      run p' (feed q bs s') = (case run p' s' of (p'', s'') \<Rightarrow> run p'' (feed q bs s''))"
  shows "run p (feed q bs s) = (case run p s of (p', s') \<Rightarrow> run p' (feed q bs s'))"
proof (cases "pstep (p, s)")
  case None
  then show ?thesis by (simp add: run_idem)
next
  case (Some t)
  obtain p' s' out where t: "t = (p', s', out)" by (cases t)
  note step = Some [unfolded t]
  from assms(2) [OF step pstep_healthy [OF step h]] run_pstep [OF step]
    run_pstep [OF pstep_feed [OF step h, of q bs]]
  show ?thesis by simp
qed

lemma run_feed:
  "healthy s \<Longrightarrow> run p (feed q bs s) = (case run p s of (p', s') \<Rightarrow> run p' (feed q bs s'))"
proof (induction p arbitrary: s)
  case (Write r cs k)
  show ?case
    by (rule run_feed_step [OF Write.prems], rule Write.IH)
       (auto split: option.splits if_splits)
next
  case (Read r n k)
  show ?case
    by (rule run_feed_step [OF Read.prems], rule Read.IH)
       (auto split: option.splits if_splits)
next
  case (Call a k)
  show ?case
    by (rule run_feed_step [OF Call.prems], rule Call.IH)
       (auto split: option.splits if_splits list.splits)
next
  case (Do a k)
  show ?case
    by (rule run_feed_step [OF Do.prems]) (use Do.IH in auto)
qed simp_all

definition feed_all :: "(port \<Rightarrow> bytes) \<Rightarrow> env \<Rightarrow> env" where
  "feed_all f s = s\<lparr>inbox := (\<lambda>q. inbox s q @ f q)\<rparr>"

lemma feed_feed_all: "feed q bs (feed_all f s) = feed_all (f(q := f q @ bs)) s"
proof -
  have "(\<lambda>r. inbox s r @ f r)(q := (inbox s q @ f q) @ bs) = (\<lambda>r. inbox s r @ (f(q := f q @ bs)) r)"
    by auto
  then show ?thesis by (simp add: feed_def feed_all_def)
qed

lemma healthy_feed_all [simp]: "healthy (feed_all f s) = healthy s"
  by (simp add: healthy_def feed_all_def)

lemma feed_all_Nil [simp]: "feed_all (\<lambda>q. []) s = s"
  by (simp add: feed_all_def)

lemma feed_all_start: "feed_all f (start I T) = start (\<lambda>q. I q @ f q) T"
  by (simp add: feed_all_def start_def)


subsection \<open>Commuting steps\<close>

text \<open>A schedule is the list of parties in the order in which they act.\<close>

fun sched_run :: "('p \<Rightarrow> 's \<Rightarrow> 's option) \<Rightarrow> 'p list \<Rightarrow> 's \<Rightarrow> 's option" where
  "sched_run step [] s = Some s"
| "sched_run step (p # ps) s = (case step p s of None \<Rightarrow> None | Some t \<Rightarrow> sched_run step ps t)"

definition final :: "('p \<Rightarrow> 's \<Rightarrow> 's option) \<Rightarrow> 's \<Rightarrow> bool" where
  "final step s \<longleftrightarrow> (\<forall>p. step p s = None)"

lemma sched_run_append:
  "sched_run step (ps @ qs) s = (case sched_run step ps s of None \<Rightarrow> None | Some t \<Rightarrow> sched_run step qs t)"
  by (induction ps arbitrary: s) (auto split: option.splits)

locale commuting =
  fixes step :: "'p \<Rightarrow> 's \<Rightarrow> 's option" and ok :: "'s \<Rightarrow> bool"
  assumes ok_step: "ok s \<Longrightarrow> step p s = Some t \<Longrightarrow> ok t"
    and diamond: "ok s \<Longrightarrow> p \<noteq> q \<Longrightarrow> step p s = Some t \<Longrightarrow> step q s = Some u \<Longrightarrow>
      \<exists>v. step q t = Some v \<and> step p u = Some v"
begin

lemma reorder:
  "ok s \<Longrightarrow> sched_run step ps s = Some t \<Longrightarrow> final step t \<Longrightarrow> step q s = Some u \<Longrightarrow>
   \<exists>ps'. sched_run step ps' u = Some t \<and> length ps = Suc (length ps')"
proof (induction ps arbitrary: s u)
  case Nil
  then show ?case by (simp add: final_def)
next
  case (Cons p ps)
  then obtain s1 where s1: "step p s = Some s1" "sched_run step ps s1 = Some t"
    by (auto split: option.splits)
  show ?case
  proof (cases "p = q")
    case True
    with s1 Cons.prems(4) show ?thesis by auto
  next
    case False
    from diamond [OF Cons.prems(1) this s1(1) Cons.prems(4)] obtain v where
      v: "step q s1 = Some v" "step p u = Some v" by blast
    from Cons.IH [OF ok_step [OF Cons.prems(1) s1(1)] s1(2) Cons.prems(3) v(1)] obtain ps' where
      "sched_run step ps' v = Some t" "length ps = Suc (length ps')" by blast
    with v(2) show ?thesis by (intro exI [of _ "p # ps'"]) simp
  qed
qed

lemma unique_end:
  "ok s \<Longrightarrow> sched_run step ps s = Some t \<Longrightarrow> final step t \<Longrightarrow>
   sched_run step qs s = Some u \<Longrightarrow> final step u \<Longrightarrow> t = u \<and> length ps = length qs"
proof (induction qs arbitrary: s ps)
  case Nil
  then have "u = s" and none: "step p s = None" for p by (simp_all add: final_def)
  with Nil.prems(2) show ?case by (cases ps) simp_all
next
  case (Cons q qs)
  then obtain s1 where s1: "step q s = Some s1" "sched_run step qs s1 = Some u"
    by (auto split: option.splits)
  from reorder [OF Cons.prems(1-3) s1(1)] obtain ps' where
    "sched_run step ps' s1 = Some t" "length ps = Suc (length ps')" by blast
  with Cons.IH [OF ok_step [OF Cons.prems(1) s1(1)] _ Cons.prems(3) s1(2) Cons.prems(5)]
  show ?case by (metis length_Cons)
qed

lemma never_longer:
  "ok s \<Longrightarrow> sched_run step ps s = Some t \<Longrightarrow> final step t \<Longrightarrow>
   sched_run step qs s = Some u \<Longrightarrow> length qs \<le> length ps \<and> (\<exists>rs. sched_run step rs u = Some t)"
proof (induction qs arbitrary: s ps)
  case (Cons q qs)
  then obtain s1 where s1: "step q s = Some s1" "sched_run step qs s1 = Some u"
    by (auto split: option.splits)
  from reorder [OF Cons.prems(1-3) s1(1)] obtain ps' where
    "sched_run step ps' s1 = Some t" "length ps = Suc (length ps')" by blast
  with Cons.IH [OF ok_step [OF Cons.prems(1) s1(1)] _ Cons.prems(3) s1(2)]
  show ?case by (metis Suc_le_mono length_Cons)
qed auto

end

text \<open>If moreover no schedule goes on forever, every schedule leads to the one end.\<close>

locale terminating = commuting +
  assumes wf_step: "wf {(t, s). \<exists>p. step p s = Some t}"
begin

lemma ends: "\<exists>ps t. sched_run step ps s = Some t \<and> final step t"
proof (induction s rule: wf_induct [OF wf_step])
  case (1 s)
  show ?case
  proof (cases "final step s")
    case True
    then show ?thesis by (intro exI [of _ "[]"] exI [of _ s]) simp
  next
    case False
    then obtain p t where p: "step p s = Some t" by (auto simp: final_def)
    with 1 obtain ps u where "sched_run step ps t = Some u" "final step u" by blast
    with p show ?thesis by (intro exI [of _ "p # ps"] exI [of _ u]) simp
  qed
qed

lemma one_end:
  assumes "ok s"
  shows "\<exists>t n. final step t \<and> (\<forall>qs u. sched_run step qs s = Some u \<longrightarrow>
    length qs \<le> n \<and> (\<exists>rs. sched_run step rs u = Some t \<and> length qs + length rs = n)
    \<and> (final step u \<longrightarrow> u = t))"
proof -
  obtain ps t where t: "sched_run step ps s = Some t" "final step t" using ends by blast
  have "length qs \<le> length ps \<and> (\<exists>rs. sched_run step rs u = Some t \<and> length qs + length rs = length ps)
      \<and> (final step u \<longrightarrow> u = t)" if u: "sched_run step qs s = Some u" for qs u
  proof -
    from never_longer [OF assms t u] obtain rs where rs: "sched_run step rs u = Some t" by blast
    with u have "sched_run step (qs @ rs) s = Some t" by (simp add: sched_run_append)
    from unique_end [OF assms t this t(2)] have "length qs + length rs = length ps" by simp
    with rs unique_end [OF assms t u] show ?thesis by auto
  qed
  with t(2) show ?thesis by blast
qed

end

subsection \<open>The network\<close>

record 'a net =
  prc :: "port \<Rightarrow> 'a proc"
  loc :: "port \<Rightarrow> env"

text \<open>The TKey and one program of the host; dom0 is off.\<close>

definition app_net :: "'a proc \<Rightarrow> 'a proc \<Rightarrow> ans list \<Rightarrow> ans list \<Rightarrow> 'a net" where
  "app_net D H T U = \<lparr>prc = (\<lambda>p. case p of Device \<Rightarrow> D | Host \<Rightarrow> H | Dom0 \<Rightarrow> Halt DeviceDone),
     loc = (\<lambda>p. start (\<lambda>_. []) (case p of Device \<Rightarrow> T | Host \<Rightarrow> U | Dom0 \<Rightarrow> []))\<rparr>"

fun deliver :: "port \<Rightarrow> (port \<times> bytes) option \<Rightarrow> (port \<Rightarrow> env) \<Rightarrow> (port \<Rightarrow> env)" where
  "deliver p None l = l"
| "deliver p (Some (q, bs)) l = l(q := feed p bs (l q))"

definition net_step :: "port \<Rightarrow> 'a net \<Rightarrow> 'a net option" where
  "net_step p n = (case pstep (prc n p, loc n p) of
     None \<Rightarrow> None
   | Some (p', s', out) \<Rightarrow>
       Some \<lparr>prc = (prc n)(p := p'), loc = deliver p out ((loc n)(p := s'))\<rparr>)"

definition net_ok :: "'a net \<Rightarrow> bool" where
  "net_ok n \<longleftrightarrow> (\<forall>p. healthy (loc n p))"

lemma deliver_apply:
  "deliver p out l q = (case out of Some (r, bs) \<Rightarrow> if r = q then feed p bs (l q) else l q | None \<Rightarrow> l q)"
  by (cases out) auto

lemma healthy_deliver [simp]: "healthy (deliver p out l q) = healthy (l q)"
  by (auto simp: deliver_apply split: option.splits)

lemma net_step_ok: "net_ok n \<Longrightarrow> net_step p n = Some n' \<Longrightarrow> net_ok n'"
  by (auto simp: net_ok_def net_step_def dest: pstep_healthy split: option.splits prod.splits)

lemma pstep_deliver:
  "pstep (pr, l q) = Some (p', s', out) \<Longrightarrow> healthy (l q) \<Longrightarrow>
   \<exists>s''. pstep (pr, deliver p o1 l q) = Some (p', s'', out) \<and>
     s'' = (case o1 of Some (r, bs) \<Rightarrow> if r = q then feed p bs s' else s' | None \<Rightarrow> s')"
  by (auto simp: deliver_apply split: option.splits intro: pstep_feed)

lemma net_diamond:
  assumes ok: "net_ok n" and ne: "p \<noteq> q"
    and "net_step p n = Some t" "net_step q n = Some u"
  shows "\<exists>v. net_step q t = Some v \<and> net_step p u = Some v"
proof -
  obtain pp sp op where p: "pstep (prc n p, loc n p) = Some (pp, sp, op)"
    and t: "t = \<lparr>prc = (prc n)(p := pp), loc = deliver p op ((loc n)(p := sp))\<rparr>"
    using assms(3) by (auto simp: net_step_def split: option.splits)
  obtain pq sq oq where q: "pstep (prc n q, loc n q) = Some (pq, sq, oq)"
    and u: "u = \<lparr>prc = (prc n)(q := pq), loc = deliver q oq ((loc n)(q := sq))\<rparr>"
    using assms(4) by (auto simp: net_step_def split: option.splits)
  have h: "healthy (loc n p)" "healthy (loc n q)" using ok by (simp_all add: net_ok_def)
  have q': "pstep (prc n q, deliver p op ((loc n)(p := sp)) q) = Some (pq,
      (case op of Some (r, bs) \<Rightarrow> if r = q then feed p bs sq else sq | None \<Rightarrow> sq), oq)"
    using pstep_deliver [of "prc n q" "(loc n)(p := sp)" q pq sq oq p op] q h ne by auto
  have p': "pstep (prc n p, deliver q oq ((loc n)(q := sq)) p) = Some (pp,
      (case oq of Some (r, bs) \<Rightarrow> if r = p then feed q bs sp else sp | None \<Rightarrow> sp), op)"
    using pstep_deliver [of "prc n p" "(loc n)(q := sq)" p pp sp op q oq] p h ne by auto
  have "deliver q oq ((deliver p op ((loc n)(p := sp)))
        (q := (case op of Some (r, bs) \<Rightarrow> if r = q then feed p bs sq else sq | None \<Rightarrow> sq)))
      = deliver p op ((deliver q oq ((loc n)(q := sq)))
        (p := (case oq of Some (r, bs) \<Rightarrow> if r = p then feed q bs sp else sp | None \<Rightarrow> sp)))"
    using ne by (intro ext) (auto simp: deliver_apply feed_commute split: option.splits)
  then show ?thesis
    using p' q' ne by (simp add: net_step_def t u fun_upd_twist)
qed

text \<open>Every step moves one program into a subtree of its tree, so no schedule is infinite.\<close>

inductive_set below :: "('a proc \<times> 'a proc) set" where
  below_Write: "(k b, Write q bs k) \<in> below"
| below_Read: "(k r, Read q n k) \<in> below"
| below_Call: "(k x, Call a k) \<in> below"
| below_Do: "(k, Do a k) \<in> below"

inductive_cases below_cases:
  "(p, Ret v) \<in> below" "(p, Halt h) \<in> below" "(p, Write q bs k) \<in> below"
  "(p, Read q n k) \<in> below" "(p, Call a k) \<in> below" "(p, Do a k') \<in> below"

lemma wf_below: "wf below"
proof (rule wfUNIVI)
  fix P :: "'a proc \<Rightarrow> bool" and p
  assume step: "\<forall>p. (\<forall>p'. (p', p) \<in> below \<longrightarrow> P p') \<longrightarrow> P p"
  show "P p"
    by (induction p; rule step [rule_format]) (auto elim: below_cases)
qed

lemma pstep_below: "pstep (p, s) = Some (p', s', out) \<Longrightarrow> (p', p) \<in> below"
  by (cases p) (auto intro: below.intros split: option.splits if_splits list.splits)

lemma net_step_wf: "wf {(t, s :: 'a net). \<exists>p. net_step p s = Some t}"
proof (rule wf_subset)
  let ?f = "\<lambda>n :: 'a net. (prc n Device, prc n Host, prc n Dom0)"
  show "wf (inv_image (below <*lex*> below <*lex*> below) ?f)"
    by (intro wf_inv_image wf_lex_prod wf_below)
  show "{(t, s :: 'a net). \<exists>p. net_step p s = Some t} \<subseteq> inv_image (below <*lex*> below <*lex*> below) ?f"
  proof clarify
    fix t s :: "'a net" and p
    assume "net_step p s = Some t"
    then obtain p' s' out where st: "pstep (prc s p, loc s p) = Some (p', s', out)"
      and t: "prc t = (prc s)(p := p')"
      by (auto simp: net_step_def split: option.splits)
    from pstep_below [OF st] show "(t, s) \<in> inv_image (below <*lex*> below <*lex*> below) ?f"
      by (cases p) (auto simp: t)
  qed
qed

interpretation net: terminating net_step net_ok
  by unfold_locales (auto intro: net_step_ok net_diamond net_step_wf)

subsection \<open>Runs of the network as runs of its programs\<close>

text \<open>
  \<open>traffic n p q\<close> is what party \<open>q\<close> has sent to \<open>p\<close>; \<open>flow n0 F p q\<close> what \<open>q\<close> sends to
  \<open>p\<close> when it runs, alone and from the start, on the bytes \<open>F\<close>.
\<close>

definition traffic :: "'a net \<Rightarrow> port \<Rightarrow> port \<Rightarrow> bytes" where
  "traffic n p q = sent p (trace (loc n q))"

definition alone :: "'a net \<Rightarrow> (port \<Rightarrow> port \<Rightarrow> bytes) \<Rightarrow> port \<Rightarrow> 'a proc \<times> env" where
  "alone n F p = run (prc n p) (feed_all (F p) (loc n p))"

definition flow :: "'a net \<Rightarrow> (port \<Rightarrow> port \<Rightarrow> bytes) \<Rightarrow> port \<Rightarrow> port \<Rightarrow> bytes" where
  "flow n F p q = sent p (trace (snd (alone n F q)))"

definition fresh :: "'a net \<Rightarrow> bool" where
  "fresh n \<longleftrightarrow> net_ok n \<and> (\<forall>p. trace (loc n p) = [])"

lemma pstep_sent:
  "pstep (p, s) = Some (p', s', out) \<Longrightarrow>
   sent q (trace s') = sent q (trace s) @ (case out of Some (r, bs) \<Rightarrow> if r = q then bs else [] | None \<Rightarrow> [])"
  by (cases p) (auto split: option.splits if_splits list.splits)

lemma net_step_traffic:
  assumes "net_step p n = Some t"
  shows "\<exists>p' s' out. pstep (prc n p, loc n p) = Some (p', s', out) \<and>
    prc t = (prc n)(p := p') \<and> loc t = deliver p out ((loc n)(p := s')) \<and>
    traffic t = (case out of Some (r, bs) \<Rightarrow> (traffic n)(r := (traffic n r)(p := traffic n r p @ bs))
      | None \<Rightarrow> traffic n)"
proof -
  obtain p' s' out where st: "pstep (prc n p, loc n p) = Some (p', s', out)"
    and t: "t = \<lparr>prc = (prc n)(p := p'), loc = deliver p out ((loc n)(p := s'))\<rparr>"
    using assms by (auto simp: net_step_def split: option.splits)
  have "trace (deliver p out ((loc n)(p := s')) q) = trace (if q = p then s' else loc n q)" for q
    by (simp add: deliver_apply split: option.splits)
  then have "traffic t = (case out of Some (r, bs) \<Rightarrow> (traffic n)(r := (traffic n r)(p := traffic n r p @ bs))
      | None \<Rightarrow> traffic n)"
    using pstep_sent [OF st] by (intro ext) (auto simp: traffic_def t split: option.splits)
  with st t show ?thesis by simp
qed

lemma run_feed_flow:
  assumes "healthy s" "run p s = run p0 (feed_all f s0)" "healthy s0"
  shows "run p (feed q bs s) = run p0 (feed_all (f(q := f q @ bs)) s0)"
  using run_feed [OF assms(1), of p q bs] assms(2)
    run_feed [of "feed_all f s0" p0 q bs] assms(3) by (simp add: feed_feed_all)

text \<open>
  At every moment, letting each program run on by itself gives what it would have done alone
  on the bytes sent to it so far.
\<close>

lemma net_run_alone:
  assumes "fresh n0" "sched_run net_step ps n0 = Some n"
  shows "net_ok n \<and> (\<forall>q. run (prc n q) (loc n q) = alone n0 (traffic n) q)"
  using assms(2)
proof (induction ps arbitrary: n rule: rev_induct)
  case Nil
  then show ?case
    using assms(1) by (simp add: alone_def fresh_def traffic_def [abs_def])
next
  case (snoc p ps)
  then obtain m where m: "sched_run net_step ps n0 = Some m" and st: "net_step p m = Some n"
    by (auto simp: sched_run_append split: option.splits)
  from snoc.IH [OF m] have ok: "net_ok m"
    and IH: "run (prc m q) (loc m q) = alone n0 (traffic m) q" for q by auto
  have h: "healthy (loc m q)" "healthy (loc n0 q)" for q
    using ok assms(1) by (simp_all add: net_ok_def fresh_def)
  obtain p' s' out where ps: "pstep (prc m p, loc m p) = Some (p', s', out)"
    and n: "prc n = (prc m)(p := p')" "loc n = deliver p out ((loc m)(p := s'))"
    and tr: "traffic n = (case out of
      Some (r, bs) \<Rightarrow> (traffic m)(r := (traffic m r)(p := traffic m r p @ bs)) | None \<Rightarrow> traffic m)"
    using net_step_traffic [OF st] by blast
  define l where "l = (loc m)(p := s')"
  have l: "run (prc n q) (l q) = alone n0 (traffic m) q" "healthy (l q)" for q
    using IH [of q] run_pstep [OF ps] pstep_healthy [OF ps h(1)] h(1) by (auto simp: l_def n)
  have "run (prc n q) (loc n q) = alone n0 (traffic n) q" for q
  proof (cases "\<exists>bs. out = Some (q, bs)")
    case True
    then obtain bs where out: "out = Some (q, bs)" by blast
    show ?thesis
      using run_feed_flow [OF l(2) l(1) [unfolded alone_def] h(2), where q = p and bs = bs]
      by (simp add: n(2) tr out alone_def flip: l_def)
  next
    case False
    then have "loc n q = l q" "traffic n q = traffic m q"
      by (auto simp: n(2) tr l_def deliver_apply split: option.splits)
    with l(1) show ?thesis by (simp add: alone_def)
  qed
  moreover have "net_ok n" using net_step_ok [OF ok st] .
  ultimately show ?case by blast
qed

text \<open>In the end every program has run alone on exactly what the others have sent.\<close>

lemma net_fixpoint:
  assumes "fresh n0" "sched_run net_step ps n0 = Some n" "final net_step n"
  shows "(prc n q, loc n q) = alone n0 (traffic n) q" and "traffic n = flow n0 (traffic n)"
proof -
  have stuck: "pstep (prc n q, loc n q) = None" for q
    using assms(3) by (cases "pstep (prc n q, loc n q)") (auto simp: final_def net_step_def split: option.splits)
  then show *: "(prc n q, loc n q) = alone n0 (traffic n) q" for q
    using net_run_alone [OF assms(1,2)] run_idem by metis
  show "traffic n = flow n0 (traffic n)"
    by (intro ext) (simp add: flow_def traffic_def [of n] flip: *)
qed

subsection \<open>Rounds\<close>

text \<open>
  A session is computed in rounds: starting from no traffic, each party is run alone on what
  is known to have been sent to it, which shows more of what it sends. When a round shows
  nothing new, the network ends with exactly this traffic, in every schedule.
\<close>

definition traffic_le :: "(port \<Rightarrow> port \<Rightarrow> bytes) \<Rightarrow> (port \<Rightarrow> port \<Rightarrow> bytes) \<Rightarrow> bool" where
  "traffic_le F G \<longleftrightarrow> (\<forall>p q. \<exists>x. G p q = F p q @ x)"

lemma traffic_le_refl [simp]: "traffic_le F F"
  by (simp add: traffic_le_def)

lemma traffic_le_trans: "traffic_le F G \<Longrightarrow> traffic_le G K \<Longrightarrow> traffic_le F K"
  unfolding traffic_le_def by (metis append.assoc)

lemma traffic_le_antisym: "traffic_le F G \<Longrightarrow> traffic_le G F \<Longrightarrow> F = G"
  unfolding traffic_le_def by (intro ext) (metis append.assoc append_Nil2 append_self_conv append_is_Nil_conv)

lemma traffic_le_Nil [simp]: "traffic_le (\<lambda>p q. []) F"
  by (simp add: traffic_le_def)

text \<open>Feeding a whole environment, one line after the other.\<close>

lemma run_feed_all_step:
  "healthy s \<Longrightarrow> run p (feed_all (f(q := f q @ bs)) s) =
     (case run p (feed_all f s) of (p', s') \<Rightarrow> run p' (feed q bs s'))"
  using run_feed [of "feed_all f s" p q bs] by (simp add: feed_feed_all)

lemma sent_run_mono: "\<exists>x. sent q (trace (snd (run p s))) = sent q (trace s) @ x"
  using run_trace_extends [of p s] by (cases "run p s") force

lemma sent_feed_step:
  "healthy s \<Longrightarrow> \<exists>x. sent r (trace (snd (run p (feed_all (f(q := f q @ bs)) s)))) =
     sent r (trace (snd (run p (feed_all f s)))) @ x"
  using sent_run_mono [of r "fst (run p (feed_all f s))" "feed q bs (snd (run p (feed_all f s)))"]
  by (simp add: run_feed_all_step case_prod_beta)

lemma sent_feed_mono:
  assumes "healthy s" "\<And>q. \<exists>x. g q = f q @ x"
  shows "\<exists>x. sent r (trace (snd (run p (feed_all g s)))) = sent r (trace (snd (run p (feed_all f s)))) @ x"
proof -
  from assms(2) obtain x where x: "\<And>q. g q = f q @ x q" by metis
  let ?f1 = "f(Device := f Device @ x Device)"
  let ?f2 = "?f1(Host := ?f1 Host @ x Host)"
  let ?f3 = "?f2(Dom0 := ?f2 Dom0 @ x Dom0)"
  have "g = ?f3"
  proof
    show "g q = ?f3 q" for q using x [of q] by (cases q) simp_all
  qed
  with sent_feed_step [OF assms(1), of r p f Device "x Device"]
    sent_feed_step [OF assms(1), of r p ?f1 Host "x Host"]
    sent_feed_step [OF assms(1), of r p ?f2 Dom0 "x Dom0"]
  show ?thesis by (metis append.assoc)
qed

lemma flow_mono:
  assumes "fresh n" "traffic_le F G"
  shows "traffic_le (flow n F) (flow n G)"
  unfolding traffic_le_def flow_def alone_def
  by (intro allI sent_feed_mono) (use assms in \<open>auto simp: fresh_def net_ok_def traffic_le_def\<close>)

text \<open>\<open>shown n F\<close>: the traffic \<open>F\<close> is known to happen.\<close>

inductive shown :: "'a net \<Rightarrow> (port \<Rightarrow> port \<Rightarrow> bytes) \<Rightarrow> bool" for n where
  shown_none: "shown n (\<lambda>p q. [])"
| shown_more: "shown n F \<Longrightarrow> traffic_le F G \<Longrightarrow> traffic_le G (flow n F) \<Longrightarrow> shown n G"

lemma shown_below: "shown n F \<Longrightarrow> fresh n \<Longrightarrow> flow n G = G \<Longrightarrow> traffic_le F G"
proof (induction rule: shown.induct)
  case (shown_more F K)
  have "traffic_le (flow n F) (flow n G)"
    by (rule flow_mono) (use shown_more in simp_all)
  with shown_more show ?case by (metis traffic_le_trans)
qed simp

lemma traffic_below:
  assumes "fresh n0" "sched_run net_step ps n0 = Some n" "flow n0 G = G"
  shows "traffic_le (traffic n) G"
  using assms(2)
proof (induction ps arbitrary: n rule: rev_induct)
  case Nil
  then show ?case using assms(1) by (simp add: traffic_def [abs_def] fresh_def)
next
  case (snoc p ps)
  then obtain m where m: "sched_run net_step ps n0 = Some m" and st: "net_step p m = Some n"
    by (auto simp: sched_run_append split: option.splits)
  have "\<exists>x. flow n0 (traffic m) r q = traffic n r q @ x" for r q
  proof -
    have "alone n0 (traffic m) q = run (prc m q) (loc m q)"
      using net_run_alone [OF assms(1) m] by simp
    moreover obtain p' s' out where ps: "pstep (prc m p, loc m p) = Some (p', s', out)"
      and n: "loc n = deliver p out ((loc m)(p := s'))"
      using net_step_traffic [OF st] by blast
    moreover have "trace (loc n q) = (if q = p then trace s' else trace (loc m q))"
      by (simp add: n deliver_apply split: option.splits)
    ultimately show ?thesis
      using sent_run_mono [of r p' s'] sent_run_mono [of r "prc m q" "loc m q"] run_pstep [OF ps]
      by (auto simp: flow_def traffic_def)
  qed
  then have "traffic_le (traffic n) (flow n0 (traffic m))" by (simp add: traffic_le_def)
  moreover have "traffic_le (flow n0 (traffic m)) G"
    using flow_mono [OF assms(1) snoc.IH [OF m]] assms(3) by simp
  ultimately show ?case by (rule traffic_le_trans)
qed

lemma session_by_rounds:
  assumes "fresh n0" "shown n0 F" "flow n0 F = F"
    "sched_run net_step ps n0 = Some n" "final net_step n"
  shows "(prc n q, loc n q) = alone n0 F q"
proof -
  have "traffic n = F"
    by (intro traffic_le_antisym traffic_below [OF assms(1,4,3)] shown_below [OF assms(2,1)]
      net_fixpoint(2) [OF assms(1,4,5), symmetric])
  then show ?thesis using net_fixpoint(1) [OF assms(1,4,5)] by simp
qed

end
