(* ===== verification/Dialogue.thy ===== *)
theory Dialogue
  imports Network
begin

text \<open>
  Two programs that talk in turn. \<open>run_prefix\<close> says that a program does as much of a run as
  the bytes that have arrived allow. If two traces can be cut into pieces such that each
  piece reads exactly what the other side's piece before it has sent, then a network of the
  two programs runs these traces, in every schedule (\<open>dialogue_session\<close>).
\<close>

subsection \<open>Prefixes of runs\<close>

text \<open>What a trace read from a peer.\<close>

definition got :: "port \<Rightarrow> event list \<Rightarrow> bytes" where
  "got q h = concat (map (\<lambda>e. case e of In p bs \<Rightarrow> if p = q then bs else [] | _ \<Rightarrow> []) h)"

lemma got_simps [simp]:
  "got q [] = []" "got q (g @ h) = got q g @ got q h"
  "got q (e # h) = (case e of In p bs \<Rightarrow> if p = q then bs else [] | _ \<Rightarrow> []) @ got q h"
  by (simp_all add: got_def)

lemma pstep_feed_all:
  "pstep (p, s) = Some (p', s', out) \<Longrightarrow> healthy s \<Longrightarrow>
   pstep (p, feed_all X s) = Some (p', feed_all X s', out)"
  by (cases p) (auto simp: healthy_def feed_all_def emit_def fun_eq_iff
      split: option.splits if_splits list.splits)

lemma pstep_events:
  "pstep (p, s) = Some (p', s', out) \<Longrightarrow> healthy s \<Longrightarrow>
   \<exists>es. trace s' = trace s @ es \<and> length es \<le> 1 \<and> (\<forall>q. inbox s q = got q es @ inbox s' q)"
  by (cases p) (auto simp: healthy_def split: option.splits if_splits list.splits)

text \<open>A program that has to wait can only go on by reading more than has arrived.\<close>

lemma waiting_reads_more:
  assumes "pstep (p, s) = None" "healthy s" "run p (feed_all X s) = (p', s')"
    "trace s' = trace s @ e # es"
  shows "\<exists>q. length (inbox s q) < length (got q [e])"
proof (cases p)
  case (Read q n k)
  with assms(1,2) have n: "length (inbox s q) < n" by (auto simp: healthy_def split: if_splits)
  show ?thesis
  proof (cases "n \<le> length (inbox s q @ X q)")
    case True
    let ?bs = "take n (inbox s q @ X q)"
    let ?s = "emit (In q ?bs) ((feed_all X s)\<lparr>inbox := (inbox (feed_all X s))(q := drop n (inbox s q @ X q))\<rparr>)"
    have "run (k (Some ?bs)) ?s = (p', s')"
      using assms(3) True by (simp add: Read feed_all_def)
    from run_trace_extends [OF this] assms(4) have "e = In q ?bs"
      by (auto simp: feed_all_def)
    with n True show ?thesis by (intro exI [of _ q]) simp
  next
    case False
    with assms(2,3) have "s' = feed_all X s" by (auto simp: Read feed_all_def healthy_def)
    with assms(4) show ?thesis by (simp add: feed_all_def)
  qed
qed (use assms in \<open>auto simp: feed_all_def split: option.splits if_splits list.splits\<close>)

lemma run_prefix_step:
  assumes "healthy s" "run p (feed_all X s) = (p', s')" "trace s' = trace s @ es1 @ es2"
    "\<forall>q. length (got q es1) \<le> length (inbox s q)"
    and IH: "\<And>p1 s1 out es. pstep (p, s) = Some (p1, s1, out) \<Longrightarrow> healthy s1 \<Longrightarrow>
      run p1 (feed_all X s1) = (p', s') \<Longrightarrow> trace s' = trace s1 @ es @ es2 \<Longrightarrow>
      \<forall>q. length (got q es) \<le> length (inbox s1 q) \<Longrightarrow>
      \<exists>y. sent r (trace (snd (run p1 s1))) = sent r (trace s1) @ sent r es @ y"
  shows "\<exists>y. sent r (trace (snd (run p s))) = sent r (trace s) @ sent r es1 @ y"
proof (cases es1)
  case Nil
  then show ?thesis using sent_run_mono [of r p s] by simp
next
  case (Cons e es)
  show ?thesis
  proof (cases "pstep (p, s)")
    case None
    from waiting_reads_more [OF None assms(1,2), of e "es @ es2"] assms(3) obtain q where
      "length (inbox s q) < length (got q [e])" by (auto simp: Cons)
    moreover have "length (got q [e]) \<le> length (got q es1)" by (simp add: Cons)
    ultimately show ?thesis using assms(4) by (metis leD order_trans)
  next
    case (Some t)
    obtain p1 s1 out where t: "t = (p1, s1, out)" by (cases t)
    note st = Some [unfolded t]
    obtain es0 where es0: "trace s1 = trace s @ es0" "length es0 \<le> 1"
      "\<And>q. inbox s q = got q es0 @ inbox s1 q" using pstep_events [OF st assms(1)] by blast
    have run1: "run p1 (feed_all X s1) = (p', s')"
      using run_pstep [OF pstep_feed_all [OF st assms(1), of X]] assms(2) by simp
    obtain zs where "trace s' = trace s1 @ zs"
      using run_trace_extends [OF run1] by (auto simp: feed_all_def)
    with es0(1) assms(3) Cons have "es0 @ zs = e # es @ es2" by simp
    with es0(2) obtain es' where es': "es1 = es0 @ es'" "zs = es' @ es2"
      by (cases es0) (auto simp: Cons)
    have "\<exists>y. sent r (trace (snd (run p1 s1))) = sent r (trace s1) @ sent r es' @ y"
    proof (rule IH [OF st pstep_healthy [OF st assms(1)] run1])
      show "trace s' = trace s1 @ es' @ es2" using \<open>trace s' = trace s1 @ zs\<close> es'(2) by simp
      show "\<forall>q. length (got q es') \<le> length (inbox s1 q)"
        using assms(4) es0(3) by (simp add: es'(1))
    qed
    then show ?thesis using run_pstep [OF st] by (simp add: es0(1) es'(1))
  qed
qed

lemma run_prefix:
  "healthy s \<Longrightarrow> run p (feed_all X s) = (p', s') \<Longrightarrow> trace s' = trace s @ es1 @ es2 \<Longrightarrow>
   \<forall>q. length (got q es1) \<le> length (inbox s q) \<Longrightarrow>
   \<exists>y. sent r (trace (snd (run p s))) = sent r (trace s) @ sent r es1 @ y"
proof (induction p arbitrary: s es1)
  case (Write q bs k)
  show ?case
    by (rule run_prefix_step [OF Write.prems], rule Write.IH)
       (auto split: option.splits if_splits)
next
  case (Read q n k)
  show ?case
    by (rule run_prefix_step [OF Read.prems], rule Read.IH)
       (auto split: option.splits if_splits)
next
  case (Call a k)
  show ?case
    by (rule run_prefix_step [OF Call.prems], rule Call.IH)
       (auto split: option.splits if_splits list.splits)
next
  case (Do a k)
  show ?case
    by (rule run_prefix_step [OF Do.prems]) (use Do.IH in auto)
next
  case (Ret v)
  show ?case by (rule run_prefix_step [OF Ret.prems]) auto
next
  case (Halt v)
  show ?case by (rule run_prefix_step [OF Halt.prems]) auto
qed

subsection \<open>Dialogues\<close>

lemma shown_le_flow: "shown n F \<Longrightarrow> fresh n \<Longrightarrow> traffic_le F (flow n F)"
proof (induction rule: shown.induct)
  case (shown_more F G)
  from flow_mono [OF shown_more.prems shown_more.hyps(2)] shown_more.hyps(3) show ?case
    by (metis traffic_le_trans)
qed simp

text \<open>One party's trace is known up to the bytes that are known to reach it.\<close>

lemma shown_round:
  assumes fr: "fresh n" and F: "shown n F" and FG: "traffic_le F G"
    and tr: "trace (snd (alone n G q)) = es1 @ es2"
    and reads: "\<forall>p. length (got p es1) \<le> length (F q p)"
    and more: "\<forall>r. \<exists>x. sent r es1 = F r q @ x"
  shows "shown n (\<lambda>r p. if p = q then sent r es1 else F r p)"
proof (rule shown_more [OF F])
  let ?G = "\<lambda>r p. if p = q then sent r es1 else F r p"
  show "traffic_le F ?G" using more by (simp add: traffic_le_def)
  have h: "healthy (loc n q)" "trace (loc n q) = []" using fr by (simp_all add: fresh_def net_ok_def)
  obtain x where x: "\<And>p. G q p = F q p @ x p" using FG unfolding traffic_le_def by metis
  have feed: "feed_all (G q) (loc n q) = feed_all x (feed_all (F q) (loc n q))"
    by (simp add: feed_all_def x)
  obtain p' s' where r: "run (prc n q) (feed_all x (feed_all (F q) (loc n q))) = (p', s')" by fastforce
  have "\<exists>y. flow n F r q = sent r es1 @ y" for r
  proof -
    let ?s = "feed_all (F q) (loc n q)"
    have "healthy ?s" using h(1) by simp
    moreover have t: "trace ?s = []" using h(2) by (simp add: feed_all_def)
    moreover have "trace s' = trace ?s @ es1 @ es2" using tr by (simp add: alone_def feed r t)
    moreover have "\<forall>p. length (got p es1) \<le> length (inbox ?s p)"
      using reads by (auto simp: feed_all_def intro: trans_le_add2)
    ultimately show ?thesis
      using run_prefix [OF _ r, of es1 es2 r] by (simp add: flow_def alone_def)
  qed
  then show "traffic_le ?G (flow n F)"
    using shown_le_flow [OF F fr] by (simp add: traffic_le_def)
qed

text \<open>
  A dialogue of two parties \<open>a\<close> and \<open>b\<close> in pieces: \<open>a\<close> begins by reading \<open>pend\<close>; every
  piece reads exactly what the other party's last piece sent.
\<close>

fun dialogue :: "port \<Rightarrow> port \<Rightarrow> bytes \<Rightarrow> (event list \<times> event list) list \<Rightarrow> bool" where
  "dialogue a b pend [] = True"
| "dialogue a b pend ((ha, hb) # ps) =
     (got b ha = pend \<and> got a hb = sent b ha \<and> dialogue a b (sent a hb) ps)"

definition talk :: "port \<Rightarrow> port \<Rightarrow> event list \<Rightarrow> event list \<Rightarrow> port \<Rightarrow> port \<Rightarrow> bytes" where
  "talk a b ha hb r q = (if q = a then sent r ha else if q = b then sent r hb else [])"

text \<open>A trace that only speaks with one peer.\<close>

definition only_with :: "port \<Rightarrow> event list \<Rightarrow> bool" where
  "only_with p h \<longleftrightarrow> (\<forall>r. r \<noteq> p \<longrightarrow> sent r h = [] \<and> got r h = [])"

lemma only_with_append [simp]: "only_with p (g @ h) \<longleftrightarrow> only_with p g \<and> only_with p h"
  by (auto simp: only_with_def)

lemma dialogue_shown:
  assumes fr: "fresh n" and ab: "a \<noteq> b"
    and A: "trace (snd (alone n (talk a b HA HB) a)) = HA" "only_with b HA"
    and B: "trace (snd (alone n (talk a b HA HB) b)) = HB" "only_with a HB"
  shows "shown n (talk a b ha hb) \<Longrightarrow> got b ha @ pend = sent a hb \<Longrightarrow> got a hb = sent b ha \<Longrightarrow>
    HA = ha @ concat (map fst ps) \<Longrightarrow> HB = hb @ concat (map snd ps) \<Longrightarrow> dialogue a b pend ps \<Longrightarrow>
    shown n (talk a b HA HB)"
proof (induction ps arbitrary: ha hb pend)
  case Nil
  then show ?case by simp
next
  case (Cons pq ps)
  obtain ga gb where pq: "pq = (ga, gb)" by (cases pq)
  have d: "got b ga = pend" "got a gb = sent b ga" "dialogue a b (sent a gb) ps"
    using Cons.prems(6) by (simp_all add: pq)
  have HA: "HA = (ha @ ga) @ concat (map fst ps)" and HB: "HB = (hb @ gb) @ concat (map snd ps)"
    using Cons.prems(4,5) by (simp_all add: pq)
  let ?T = "talk a b"
  have upG: "traffic_le (?T ha hb) (?T HA HB)" "traffic_le (?T (ha @ ga) hb) (?T HA HB)"
    by (simp_all add: traffic_le_def talk_def HA HB)
  have oA: "only_with b ha" "only_with b ga" and oB: "only_with a hb" "only_with a gb"
    using A(2) B(2) by (simp_all add: HA HB)
  have lenA: "length (got r (ha @ ga)) \<le> length (?T ha hb a r)" for r
    using oA Cons.prems(2) d(1) ab by (cases "r = b") (auto simp: talk_def only_with_def)
  have lenB: "length (got r (hb @ gb)) \<le> length (?T (ha @ ga) hb b r)" for r
    using oB Cons.prems(3) d(2) ab by (cases "r = a") (auto simp: talk_def only_with_def)
  have "shown n (\<lambda>r p. if p = a then sent r (ha @ ga) else ?T ha hb r p)"
    by (rule shown_round [OF fr Cons.prems(1) upG(1) trans [OF A(1) HA]])
       (use lenA in \<open>auto simp: talk_def\<close>)
  moreover have "(\<lambda>r p. if p = a then sent r (ha @ ga) else ?T ha hb r p) = ?T (ha @ ga) hb"
    by (intro ext) (simp add: talk_def)
  ultimately have 1: "shown n (?T (ha @ ga) hb)" by simp
  have "shown n (\<lambda>r p. if p = b then sent r (hb @ gb) else ?T (ha @ ga) hb r p)"
    by (rule shown_round [OF fr 1 upG(2) trans [OF B(1) HB]])
       (use lenB ab in \<open>auto simp: talk_def\<close>)
  moreover have "(\<lambda>r p. if p = b then sent r (hb @ gb) else ?T (ha @ ga) hb r p) = ?T (ha @ ga) (hb @ gb)"
    using ab by (intro ext) (simp add: talk_def)
  ultimately have 2: "shown n (?T (ha @ ga) (hb @ gb))" by simp
  show ?case
    by (rule Cons.IH [OF 2 _ _ HA HB d(3)]) (use Cons.prems(2,3) d in simp_all)
qed

text \<open>
  The end of a session: if both full traces are what the programs do on each other's bytes,
  and a dialogue, every schedule that ends, ends with both programs having made exactly them.
\<close>

lemma dialogue_session:
  assumes fr: "fresh n0" and ab: "a \<noteq> b"
    and A: "alone n0 (talk a b HA HB) a = (pa, sa)" "trace sa = HA" "only_with b HA"
    and B: "alone n0 (talk a b HA HB) b = (pb, sb)" "trace sb = HB" "only_with a HB"
    and idle: "\<And>c. c \<noteq> a \<Longrightarrow> c \<noteq> b \<Longrightarrow> \<exists>h. prc n0 c = Halt h"
    and ps: "HA = concat (map fst ps)" "HB = concat (map snd ps)" "dialogue a b [] ps"
    and fin: "sched_run net_step sched n0 = Some n" "final net_step n"
  shows "(prc n a, loc n a) = (pa, sa) \<and> (prc n b, loc n b) = (pb, sb)"
proof -
  let ?G = "talk a b HA HB"
  have "talk a b [] [] = (\<lambda>r q. [])" by (intro ext) (simp add: talk_def)
  then have "shown n0 (talk a b [] [])" using shown_none [of n0] by simp
  then have shown: "shown n0 ?G"
    using dialogue_shown [OF fr ab _ A(3) _ B(3), of "[]" "[]" "[]" ps] A(1,2) B(1,2) ps by simp
  have "flow n0 ?G = ?G"
  proof (intro ext)
    fix r q
    show "flow n0 ?G r q = ?G r q"
    proof (cases "q = a \<or> q = b")
      case True
      then show ?thesis using A(1,2) B(1,2) ab by (auto simp: flow_def talk_def)
    next
      case False
      with idle obtain h where "prc n0 q = Halt h" by blast
      with False fr show ?thesis by (simp add: flow_def alone_def talk_def fresh_def feed_all_def)
    qed
  qed
  from session_by_rounds [OF fr shown this fin] A(1) B(1) show ?thesis by simp
qed

end
