(* ===== verification/Session.thy ===== *)
theory Session
  imports Dialogue Phases
begin

text \<open>
  Whole unlocking sessions: the TKey (its firmware, then the client app) and the initramfs
  program as a network, in every schedule. The firmware is not in the repository; it is a
  parameter \<open>fw\<close>, and \<open>firmware_boots\<close> states the part of its documented protocol the host
  relies on.
\<close>

subsection \<open>The network\<close>

text \<open>
  The firmware reads the load request and answers it, then reads all frames, answers them and
  starts the app. It speaks to the host only and asks nothing of the app's random source.
\<close>

definition boot_frames :: "bytes \<Rightarrow> bytes" where
  "boot_frames bin = concat (map load_frame (chunks 127 bin))"

definition firmware_boots :: "unit proc \<Rightarrow> bytes \<Rightarrow> boot_answers \<Rightarrow> event list \<Rightarrow> event list \<Rightarrow> bool" where
  "firmware_boots fw bin b e1 e2 \<longleftrightarrow>
     (\<forall>(f :: unit \<Rightarrow> (box_error + exit_code) proc) ys T H.
        run (bnd fw f) (on Host (load_stream bin @ ys) T H) = run (f ()) (on Host ys T (H @ e1 @ e2))) \<and>
     got Host e1 = load_request bin \<and> sent Host e1 = b_resp b \<and>
     got Host e2 = boot_frames bin \<and> sent Host e2 = b_acks b @ b_digest b \<and>
     only_with Host e1 \<and> only_with Host e2"

definition tkey :: "unit proc \<Rightarrow> crypto \<Rightarrow> bytes \<Rightarrow> 'a proc" where
  "tkey fw cr key_bytes = thn fw (client_main cr key_bytes)"

definition unlock_net :: "unit proc \<Rightarrow> crypto \<Rightarrow> bytes \<Rightarrow> config \<Rightarrow> nat \<Rightarrow> ans list \<Rightarrow> ans list \<Rightarrow>
    (box_error + exit_code) net" where
  "unlock_net fw cr key_bytes cfg fuel T U = app_net (tkey fw cr key_bytes) (host_main cr cfg fuel) T U"

lemma fresh_unlock_net: "fresh (unlock_net fw cr k cfg fuel T U)"
  by (simp add: fresh_def unlock_net_def app_net_def net_ok_def)

lemma feed_all_on: "feed_all ((\<lambda>_. [])(q := bs)) (start (\<lambda>_. []) T) = on q bs T []"
  by (rule on_eqI) (auto simp: feed_all_def start_def)

subsection \<open>The pieces of a session\<close>

fun dev_view :: "crypto \<Rightarrow> config \<Rightarrow> cipher \<Rightarrow> (bytes \<times> int option) list \<Rightarrow> (bytes \<times> byte) list" where
  "dev_view cr cfg c [] = []"
| "dev_view cr cfg c ((pass, code) # ts) =
     (sealed_hash cr cfg c pass, verdict_byte code) # dev_view cr cfg (advance 64 c) ts"

definition asked :: "crypto \<Rightarrow> config \<Rightarrow> bool \<Rightarrow> cipher \<Rightarrow> bytes \<Rightarrow> event list" where
  "asked cr cfg tr c pass = In Device [0x22] # butlast (ask_events cr cfg tr c pass)"

definition opened :: "crypto \<Rightarrow> config \<Rightarrow> bytes \<Rightarrow> cipher \<Rightarrow> bytes \<Rightarrow> int option \<Rightarrow> event list" where
  "opened cr cfg cdi c pass code = In Device [0x21] # open_events cfg (advance 32 c)
     (sealed_key cr cfg cdi c pass) (derived_key cr cfg cdi pass) code"

definition answered :: "crypto \<Rightarrow> config \<Rightarrow> bytes \<Rightarrow> cipher \<Rightarrow> bytes \<Rightarrow> event list" where
  "answered cr cfg cdi c pass =
    [In Host (sealed_hash cr cfg c pass), Did (Keystream (cpos c) 32), Got ReadCdi (ABytes cdi),
      Got Blake2sCall AOk, Did (Zeroize ''host_hash''), Did (Keystream (cpos c + 32) 32),
      Did (Zeroize ''keyfile''), Out Host [0x21]] @
     map (\<lambda>b. Out Host [b]) (sealed_key cr cfg cdi c pass) @
     [Did (Zeroize ''encrypted_keyfile''), Did (Zeroize ''cdi'')]"

definition judged :: "int option \<Rightarrow> event list" where
  "judged code = In Host [verdict_byte code] # (if code = Some 0 then [] else [Did (SleepSecs 3)])"

text \<open>
  The tries as pieces. The device's \<open>Ready4pass\<close> for the next try belongs to the piece
  before it; \<open>fin\<close> is what the device does after the last one.
\<close>

fun try_pieces :: "crypto \<Rightarrow> config \<Rightarrow> bytes \<Rightarrow> bool \<Rightarrow> cipher \<Rightarrow> event list \<Rightarrow> event list \<Rightarrow>
    (bytes \<times> int option) list \<Rightarrow> (event list \<times> event list) list" where
  "try_pieces cr cfg cdi tr c pre fin [] = []"
| "try_pieces cr cfg cdi tr c pre fin ((pass, code) # ts) =
     (pre @ asked cr cfg tr c pass, answered cr cfg cdi c pass) #
     (opened cr cfg cdi c pass code,
       judged code @ (if ts = [] then fin else [Out Host [0x22]])) #
     try_pieces cr cfg cdi tr (advance 64 c) [] fin ts"

lemma verdict_byte_iff [simp]: "verdict_byte code = 0x99 \<longleftrightarrow> code = Some 0"
  by (simp add: verdict_byte_def)

lemma sealed_hash_open:
  "fst (crypt c (sealed_hash cr cfg c pass)) = pass_hash cr cfg pass"
  by (simp add: sealed_hash_def session.inverse)

lemma sent_singletons [simp]: "sent q (map (\<lambda>b. Out p [b]) bs) = (if p = q then bs else [])"
  by (induction bs) auto

lemma got_singletons [simp]: "got q (map (\<lambda>b. Out p [b]) bs) = []"
  by (induction bs) auto

lemma dev_attempt_pieces:
  assumes "crypto_ok cr" "usable cr cfg pass"
  shows "dev_attempt_events cr c cdi (sealed_hash cr cfg c pass) (verdict_byte code) =
    Out Host [0x22] # answered cr cfg cdi c pass @ judged code"
proof -
  have "snd (crypt c (sealed_hash cr cfg c pass)) = advance 32 c"
    using length_pass_hash [OF assms] by (simp add: sealed_hash_def advance_def)
  then show ?thesis
    by (simp add: dev_attempt_events_def Let_def sealed_hash_open answered_def judged_def
        derived_key_def sealed_key_def)
qed

lemma try_pieces_host:
  "ts \<noteq> [] \<Longrightarrow> concat (map fst (try_pieces cr cfg cdi tr c pre fin ts)) =
   pre @ tries_events cr cfg cdi tr c ts"
proof (induction ts arbitrary: c pre)
  case (Cons t ts)
  then show ?case
    by (cases t; cases "ts = []")
       (simp_all add: asked_def opened_def try_events_def ask_events_def)
qed simp

lemma try_pieces_device:
  assumes "crypto_ok cr"
  shows "ts \<noteq> [] \<Longrightarrow> \<forall>(p, k) \<in> set ts. usable cr cfg p \<Longrightarrow>
   Out Host [0x22] # concat (map snd (try_pieces cr cfg cdi tr c pre fin ts)) =
   dev_loop_events cr cdi c (dev_view cr cfg c ts) @ fin"
proof (induction ts arbitrary: c pre)
  case (Cons t ts)
  obtain pass code where t: "t = (pass, code)" by (cases t)
  show ?case
  proof (cases "ts = []")
    case True
    with Cons.prems show ?thesis by (simp add: t dev_attempt_pieces [OF assms])
  next
    case False
    with Cons.IH [OF False, of "advance 64 c" "[]"] Cons.prems show ?thesis
      by (simp add: t dev_attempt_pieces [OF assms])
  qed
qed simp

lemma try_pieces_dialogue:
  assumes fin: "got Host fin = []" and pre: "got Device pre = pend" "sent Device pre = []"
  shows "ts \<noteq> [] \<Longrightarrow> dialogue Host Device (pend @ [0x22]) (try_pieces cr cfg cdi tr c pre fin ts)"
  using pre
proof (induction ts arbitrary: c pre pend)
  case (Cons t ts)
  obtain pass code where t: "t = (pass, code)" by (cases t)
  show ?case
  proof (cases "ts = []")
    case True
    with Cons.prems fin show ?thesis
      by (simp add: t asked_def answered_def opened_def judged_def ask_events_def open_events_def)
  next
    case False
    with Cons.prems Cons.IH [OF False, of "[]" "[]" "advance 64 c"] show ?thesis
      by (simp add: t asked_def answered_def opened_def judged_def ask_events_def open_events_def)
  qed
qed simp

subsection \<open>The session\<close>

text \<open>The setting: libraries, secrets, a binary the firmware accepts, a TPM, tries.\<close>

record setting =
  s_cr :: crypto
  s_key :: bytes
  s_cfg :: config
  s_bin :: bytes
  s_boot :: boot_answers
  s_dev :: device_secrets
  s_seed :: bytes
  s_tpm :: tpm_answers
  s_gate :: gate

definition setting_ok :: "setting \<Rightarrow> bool" where
  "setting_ok S \<longleftrightarrow> crypto_ok (s_cr S) \<and> secrets_ok (s_dev S) \<and> length (s_seed S) = 32 \<and>
     boot_ok (s_cr S) (s_bin S) (s_boot S) \<and> tpm_gives (s_tpm S) (s_gate S) \<and>
     gate_opens (s_cr S) (s_key S) (ticket_of (s_cr S) (s_dev S) (s_seed S)) (s_gate S)"

definition session_stream :: "setting \<Rightarrow> cipher" where
  "session_stream S = \<lparr>ks = the (chacha (s_cr S)
     (x_dh (s_cr S) (x_secret (s_cr S) (s_seed S)) (d_pub (s_cr S) (s_dev S))) (d_enc_nonce (s_dev S))),
     cpos = 0\<rparr>"

lemma setting_okD:
  assumes "setting_ok S"
  shows "crypto_ok (s_cr S)" "secrets_ok (s_dev S)" "length (s_seed S) = 32"
    "boot_ok (s_cr S) (s_bin S) (s_boot S)" "tpm_gives (s_tpm S) (s_gate S)"
    "gate_opens (s_cr S) (s_key S) (ticket_of (s_cr S) (s_dev S) (s_seed S)) (s_gate S)"
  using assms by (simp_all add: setting_ok_def)

lemma session_streams:
  assumes "setting_ok S"
  shows "chacha (s_cr S) (x_dh (s_cr S) (x_secret (s_cr S) (s_seed S)) (d_pub (s_cr S) (s_dev S)))
      (d_enc_nonce (s_dev S)) = Some (ks (session_stream S))"
    and "chacha (s_cr S) (x_dh (s_cr S) (x_secret (s_cr S) (d_seed (s_dev S))) (h_pub (s_cr S) (s_seed S)))
      (d_enc_nonce (s_dev S)) = Some (ks (session_stream S))"
proof -
  note S = setting_okD [OF assms]
  have len: "length (d_enc_nonce (s_dev S)) = 12" "length (d_seed (s_dev S)) = 32"
    using S(2) by (simp_all add: secrets_ok_def)
  show 1: "chacha (s_cr S) (x_dh (s_cr S) (x_secret (s_cr S) (s_seed S)) (d_pub (s_cr S) (s_dev S)))
      (d_enc_nonce (s_dev S)) = Some (ks (session_stream S))"
    using crypto_okD(6) [OF S(1) crypto_okD(2) [OF S(1)] len(1)] by (auto simp: session_stream_def)
  have "x_dh (s_cr S) (x_secret (s_cr S) (d_seed (s_dev S))) (h_pub (s_cr S) (s_seed S)) =
      x_dh (s_cr S) (x_secret (s_cr S) (s_seed S)) (d_pub (s_cr S) (s_dev S))"
    unfolding h_pub_def d_pub_def by (rule crypto_okD(7) [OF S(1) len(2) S(3)])
  with 1 show "chacha (s_cr S) (x_dh (s_cr S) (x_secret (s_cr S) (d_seed (s_dev S))) (h_pub (s_cr S) (s_seed S)))
      (d_enc_nonce (s_dev S)) = Some (ks (session_stream S))" by simp
qed

lemma session_stream_eta [simp]: "\<lparr>ks = ks (session_stream S), cpos = 0\<rparr> = session_stream S"
  by (simp add: session_stream_def)

abbreviation cdi_of :: "setting \<Rightarrow> bytes" where
  "cdi_of S \<equiv> d_cdi (s_dev S)"

definition host_trace :: "setting \<Rightarrow> (bytes \<times> int option) list \<Rightarrow> event list" where
  "host_trace S ts = mount_events (s_cfg S) (s_bin S) @
     auth_events (s_cr S) (s_bin S) (s_boot S) (s_dev S) (s_seed S) (s_tpm S) (s_gate S) @
     tries_events (s_cr S) (s_cfg S) (cdi_of S) (trusted (s_gate S)) (session_stream S) ts"

definition end_events :: "exit_code \<Rightarrow> event list" where
  "end_events code = (if code = Success then epilogue_events else [])"

definition tkey_trace :: "setting \<Rightarrow> event list \<Rightarrow> (bytes \<times> int option) list \<Rightarrow> exit_code \<Rightarrow> event list" where
  "tkey_trace S e ts code = e @ hello_events (s_cr S) (s_dev S) @ [In Host (h_pub (s_cr S) (s_seed S))] @
     dev_gate_events (s_gate S) @
     dev_loop_events (s_cr S) (cdi_of S) (session_stream S) (dev_view (s_cr S) (s_cfg S) (session_stream S) ts) @
     end_events code"

text \<open>The pieces up to the first \<open>Ready4pass\<close>, which all programs share.\<close>

definition prologue :: "setting \<Rightarrow> event list \<Rightarrow> event list \<Rightarrow> (event list \<times> event list) list" where
  "prologue S e1 e2 =
    [(tty_events @ request_events (s_bin S), e1),
     ([In Device (b_resp (s_boot S))] @ map (\<lambda>c. Out Device (load_frame c)) (chunks 127 (s_bin S)) @
        poll_events (expected_bytes (total_frames (s_bin S))),
      e2 @ hello_events (s_cr S) (s_dev S)),
     ([In Device (b_acks (s_boot S)), In Device (b_digest (s_boot S)), In Device (d_nonce (s_dev S)),
       In Device (d_enc_nonce (s_dev S)), Got (GetRandom 32) (ABytes (s_seed S)),
       Out Device (h_pub (s_cr S) (s_seed S)), In Device (d_pub (s_cr S) (s_dev S))] @
      tpm_events (ticket_of (s_cr S) (s_dev S) (s_seed S)) (s_tpm S) (s_gate S) @ gate_out (s_gate S),
      [In Host (h_pub (s_cr S) (s_seed S))] @ dev_gate_events (s_gate S) @ [Out Host [0x22]])]"

definition session_pieces :: "setting \<Rightarrow> event list \<Rightarrow> event list \<Rightarrow> (bytes \<times> int option) list \<Rightarrow>
    exit_code \<Rightarrow> (event list \<times> event list) list" where
  "session_pieces S e1 e2 ts code = (mount_events (s_cfg S) (s_bin S), []) # prologue S e1 e2 @
    try_pieces (s_cr S) (s_cfg S) (cdi_of S) (trusted (s_gate S)) (session_stream S)
      [In Device [gate_reply (s_gate S)]] (end_events code) ts"

lemma prologue_host:
  "concat (map fst (prologue S e1 e2)) @ [In Device [gate_reply (s_gate S)]] =
   auth_events (s_cr S) (s_bin S) (s_boot S) (s_dev S) (s_seed S) (s_tpm S) (s_gate S)"
  by (simp add: prologue_def auth_events_def load_events_def)

lemma prologue_host_more:
  "concat (map fst (prologue S e1 e2)) @ In Device [gate_reply (s_gate S)] # H =
   auth_events (s_cr S) (s_bin S) (s_boot S) (s_dev S) (s_seed S) (s_tpm S) (s_gate S) @ H"
  by (simp flip: prologue_host [of S e1 e2])

lemma prologue_device:
  "concat (map snd (prologue S e1 e2)) = e1 @ e2 @ hello_events (s_cr S) (s_dev S) @
     [In Host (h_pub (s_cr S) (s_seed S))] @ dev_gate_events (s_gate S) @ [Out Host [0x22]]"
  by (simp add: prologue_def)

lemma pieces_host:
  "ts \<noteq> [] \<Longrightarrow> concat (map fst (session_pieces S e1 e2 ts code)) = host_trace S ts"
  by (simp add: session_pieces_def host_trace_def try_pieces_host prologue_host_more)

lemma pieces_device:
  assumes "setting_ok S" "ts \<noteq> []" "\<forall>(p, k) \<in> set ts. usable (s_cr S) (s_cfg S) p"
  shows "concat (map snd (session_pieces S e1 e2 ts code)) = tkey_trace S (e1 @ e2) ts code"
  using try_pieces_device [OF setting_okD(1) [OF assms(1)] assms(2,3), of "cdi_of S" "trusted (s_gate S)"
      "session_stream S" "[In Device [gate_reply (s_gate S)]]" "end_events code"]
  by (simp add: session_pieces_def tkey_trace_def prologue_device)

lemma got_tpm [simp]: "got q (tpm_events ticket t g) = []" "sent q (tpm_events ticket t g) = []"
  by (simp_all add: tpm_events_def)

lemma got_events [simp]:
  "got q (mount_events cfg bin) = []" "sent q (mount_events cfg bin) = []"
  "got q tty_events = []" "sent q tty_events = []"
  "got q (poll_events e) = []" "sent q (poll_events e) = []"
  "got q (end_events code) = []" "sent q (end_events code) = []"
  "got q (request_events bin) = []"
  "got q (hello_events cr d) = []" "sent Host (hello_events cr d) = hello cr d"
  by (simp_all add: mount_events_def tty_events_def poll_events_def end_events_def epilogue_events_def
      request_events_def hello_events_def hello_def)

lemma got_gate [simp]:
  "got Host (dev_gate_events g) = gate_msg g" "sent Host (dev_gate_events g) = [gate_reply g]"
  "got Device (gate_out g) = []" "sent Device (gate_out g) = gate_msg g"
  by (cases g; simp add: gate_out_def)+

lemma sent_request [simp]: "sent Device (request_events bin) = load_request bin"
  by (simp add: request_events_def load_request_def zeros_def flip: replicate_add replicate_Suc)

lemma sent_frames [simp]:
  "sent q (map (\<lambda>c. Out p (load_frame c)) cs) = (if p = q then concat (map load_frame cs) else [])"
  "got q (map (\<lambda>c. Out p (load_frame c)) cs) = []"
  by (induction cs) auto

lemma prologue_dialogue:
  assumes "firmware_boots fw (s_bin S) (s_boot S) e1 e2"
  shows "dialogue Host Device [] (prologue S e1 e2 @ ps) = dialogue Host Device [gate_reply (s_gate S), 0x22] ps"
  using assms by (simp add: prologue_def firmware_boots_def boot_frames_def hello_def)

lemma pieces_dialogue:
  assumes "firmware_boots fw (s_bin S) (s_boot S) e1 e2" "ts \<noteq> []"
  shows "dialogue Host Device [] (session_pieces S e1 e2 ts code)"
  using try_pieces_dialogue [OF _ _ _ assms(2), of "end_events code" "[In Device [gate_reply (s_gate S)]]"
      "[gate_reply (s_gate S)]"]
  by (simp add: session_pieces_def prologue_dialogue [OF assms(1)])

subsection \<open>What each side sends and does\<close>

lemma usable_Cons:
  "\<forall>(p, k) \<in> set ((pass, code) # ts). usable cr cfg p \<Longrightarrow> usable cr cfg pass \<and> (\<forall>(p, k) \<in> set ts. usable cr cfg p)"
  by simp

lemma length_sealed_hash:
  "crypto_ok cr \<Longrightarrow> usable cr cfg pass \<Longrightarrow> length (sealed_hash cr cfg c pass) = 32"
  by (simp add: sealed_hash_def length_pass_hash)

lemma attempts_end_view:
  assumes "crypto_ok cr"
  shows "tries_end n ts = Some code \<Longrightarrow> \<forall>(p, k) \<in> set ts. usable cr cfg p \<Longrightarrow>
    attempts_end n (dev_view cr cfg c ts) = Some (code = Success)"
proof (induction ts arbitrary: n c)
  case (Cons t ts)
  then show ?case
    by (cases t; cases ts) (auto simp: length_sealed_hash [OF assms] split: if_splits)
qed (auto split: if_splits)

lemma sent_dev_loop:
  assumes "crypto_ok cr"
  shows "\<forall>(p, k) \<in> set ts. usable cr cfg p \<Longrightarrow>
    sent Host (dev_loop_events cr cdi c (dev_view cr cfg c ts)) = tries_in cr cfg cdi c ts"
proof (induction ts arbitrary: c)
  case (Cons t ts)
  then show ?case
    by (cases t) (auto simp: dev_attempt_pieces [OF assms] answered_def judged_def)
qed simp

lemma sent_tries:
  "sent Device (tries_events cr cfg cdi tr c ts) = dev_in (dev_view cr cfg c ts)"
proof (induction ts arbitrary: c)
  case (Cons t ts)
  then show ?case by (cases t) (simp add: try_events_def ask_events_def open_events_def)
qed simp

lemma only_with_Nil [simp]: "only_with p []"
  by (simp add: only_with_def)

lemma only_with_Cons [simp]:
  "only_with p (e # h) \<longleftrightarrow>
    (case e of Out q bs \<Rightarrow> q = p \<or> bs = [] | In q bs \<Rightarrow> q = p \<or> bs = [] | _ \<Rightarrow> True) \<and> only_with p h"
  by (cases e) (auto simp: only_with_def)

lemma only_with_map [simp]: "only_with p (map (\<lambda>c. Out p (f c)) cs)"
  by (induction cs) auto

lemma only_with_device:
  assumes "only_with Host e"
  shows "only_with Host (tkey_trace S e ts code)"
proof -
  have loop: "only_with Host (dev_loop_events cr cdi c as)" for cr cdi c as
    by (induction as arbitrary: c) (auto simp: dev_attempt_events_def Let_def)
  show ?thesis
    using assms
    by (cases "s_gate S") (auto simp: tkey_trace_def loop hello_events_def end_events_def epilogue_events_def)
qed

lemma only_with_host: "only_with Device (host_trace S ts)"
proof -
  have tries: "only_with Device (tries_events cr cfg cdi tr c ts)" for cr cfg cdi tr c
  proof (induction ts arbitrary: c)
    case (Cons t ts)
    then show ?case by (cases t) (simp add: try_events_def ask_events_def open_events_def)
  qed simp
  show ?thesis
    by (cases "s_gate S")
       (simp_all add: host_trace_def mount_events_def auth_events_def tty_events_def load_events_def
         request_events_def poll_events_def tpm_events_def gate_out_def tries)
qed

text \<open>The two programs, each alone on the other's bytes.\<close>

definition tkey_tape :: "setting \<Rightarrow> (bytes \<times> int option) list \<Rightarrow> ans list" where
  "tkey_tape S ts = device_answers (s_dev S) (s_gate S)
     (dev_view (s_cr S) (s_cfg S) (session_stream S) ts)"

definition host_tape :: "setting \<Rightarrow> (bytes \<times> int option) list \<Rightarrow> ans list" where
  "host_tape S ts = host_answers (s_bin S) (s_seed S) (s_tpm S) (s_gate S) ts"

definition unlock_of :: "setting \<Rightarrow> unit proc \<Rightarrow> nat \<Rightarrow> (bytes \<times> int option) list \<Rightarrow>
    (box_error + exit_code) net" where
  "unlock_of S fw fuel ts =
     unlock_net fw (s_cr S) (s_key S) (s_cfg S) (Suc fuel) (tkey_tape S ts) (host_tape S ts)"

definition tries_ok :: "setting \<Rightarrow> (bytes \<times> int option) list \<Rightarrow> exit_code \<Rightarrow> bool" where
  "tries_ok S ts code \<longleftrightarrow> tries_end 3 ts = Some code \<and> (\<forall>(p, k) \<in> set ts. usable (s_cr S) (s_cfg S) p)"

lemma host_alone:
  assumes S: "setting_ok S" and fw: "firmware_boots fw (s_bin S) (s_boot S) e1 e2" and ts: "tries_ok S ts code"
  shows "run (host_main (s_cr S) (s_cfg S) (Suc fuel))
     (on Device (sent Host (tkey_trace S (e1 @ e2) ts code)) (host_tape S ts) []) =
   (Ret (Inr code), on Device [] [] (host_trace S ts))"
proof -
  have "sent Host (tkey_trace S (e1 @ e2) ts code) =
      boot_bytes (s_boot S) @ hello (s_cr S) (s_dev S) @ gate_reply (s_gate S) #
      tries_in (s_cr S) (s_cfg S) (cdi_of S) (session_stream S) ts"
    using fw ts
    by (simp add: tkey_trace_def firmware_boots_def boot_bytes_def tries_ok_def
        sent_dev_loop [OF setting_okD(1) [OF S]])
  with on_host_main [OF setting_okD(1,2,3,4,5) [OF S] session_streams(1) [OF S], of ts code "s_cfg S" fuel "cdi_of S" "[]"] ts
  show ?thesis by (simp add: tries_ok_def host_tape_def host_trace_def)
qed

lemma tkey_alone:
  assumes S: "setting_ok S" and fw: "firmware_boots fw (s_bin S) (s_boot S) e1 e2" and ts: "tries_ok S ts code"
  shows "run (tkey fw (s_cr S) (s_key S) :: (box_error + exit_code) proc)
     (on Host (sent Device (host_trace S ts)) (tkey_tape S ts) []) =
   (Halt (if code = Success then DeviceDone else DeviceAbort), on Host [] [] (tkey_trace S (e1 @ e2) ts code))"
proof -
  note cr = setting_okD(1) [OF S]
  have "sent Device (auth_events (s_cr S) (s_bin S) (s_boot S) (s_dev S) (s_seed S) (s_tpm S) (s_gate S)) =
      load_stream (s_bin S) @ h_pub (s_cr S) (s_seed S) @ gate_msg (s_gate S)"
    by (simp add: auth_events_def load_events_def load_stream_def)
  then have "sent Device (host_trace S ts) = load_stream (s_bin S) @ h_pub (s_cr S) (s_seed S) @
      gate_msg (s_gate S) @ dev_in (dev_view (s_cr S) (s_cfg S) (session_stream S) ts)"
    by (simp add: host_trace_def sent_tries)
  moreover have "run (client_main (s_cr S) (s_key S) :: (box_error + exit_code) proc)
      (on Host (h_pub (s_cr S) (s_seed S) @ gate_msg (s_gate S) @
        dev_in (dev_view (s_cr S) (s_cfg S) (session_stream S) ts)) (tkey_tape S ts) (e1 @ e2)) =
     (Halt (if code = Success then DeviceDone else DeviceAbort), on Host [] [] (tkey_trace S (e1 @ e2) ts code))"
  proof -
    have hp: "length (h_pub (s_cr S) (s_seed S)) = 32" using crypto_okD(1) [OF cr] by (simp add: h_pub_def)
    have as: "attempts_end 3 (dev_view (s_cr S) (s_cfg S) (session_stream S) ts) = Some (code = Success)"
      using attempts_end_view [OF cr] ts by (auto simp: tries_ok_def)
    show ?thesis
      unfolding tkey_tape_def
      by (subst on_client_main [OF cr setting_okD(2) [OF S] hp session_streams(2) [OF S]
        setting_okD(6) [OF S, unfolded ticket_of_def] as]) (simp add: tkey_trace_def end_events_def)
  qed
  ultimately show ?thesis
    using fw by (simp add: tkey_def firmware_boots_def)
qed

subsection \<open>Every schedule\<close>

lemma tries_nonempty: "tries_ok S ts code \<Longrightarrow> ts \<noteq> []"
  by (auto simp: tries_ok_def)

lemma unlock_ends:
  assumes S: "setting_ok S" and fw: "firmware_boots fw (s_bin S) (s_boot S) e1 e2" and ts: "tries_ok S ts code"
    and fin: "sched_run net_step sched (unlock_of S fw fuel ts) = Some n" "final net_step n"
  shows "prc n Host = Ret (Inr code) \<and> trace (loc n Host) = host_trace S ts \<and>
    prc n Device = Halt (if code = Success then DeviceDone else DeviceAbort) \<and>
    trace (loc n Device) = tkey_trace S (e1 @ e2) ts code"
proof -
  let ?n0 = "unlock_of S fw fuel ts"
  let ?HA = "host_trace S ts" and ?HB = "tkey_trace S (e1 @ e2) ts code"
  note oH = only_with_host [of S ts]
  have oD: "only_with Host ?HB"
    by (rule only_with_device) (use fw in \<open>simp add: firmware_boots_def\<close>)
  have lines: "talk Host Device ?HA ?HB Host = (\<lambda>_. [])(Device := sent Host ?HB)"
    "talk Host Device ?HA ?HB Device = (\<lambda>_. [])(Host := sent Device ?HA)"
    using oH oD by (auto simp: talk_def only_with_def fun_eq_iff)
  have A: "alone ?n0 (talk Host Device ?HA ?HB) Host = (Ret (Inr code), on Device [] [] ?HA)"
    using host_alone [OF S fw ts, of fuel]
    by (simp add: alone_def lines unlock_of_def unlock_net_def app_net_def feed_all_on)
  have B: "alone ?n0 (talk Host Device ?HA ?HB) Device =
      (Halt (if code = Success then DeviceDone else DeviceAbort), on Host [] [] ?HB)"
    using tkey_alone [OF S fw ts]
    by (simp add: alone_def lines unlock_of_def unlock_net_def app_net_def feed_all_on)
  have idle: "\<exists>h. prc ?n0 c = Halt h" if "c \<noteq> Host" "c \<noteq> Device" for c
    using that by (cases c) (simp_all add: unlock_of_def unlock_net_def app_net_def)
  note ne = tries_nonempty [OF ts]
  have P: "?HA = concat (map fst (session_pieces S e1 e2 ts code))"
    "?HB = concat (map snd (session_pieces S e1 e2 ts code))"
    "dialogue Host Device [] (session_pieces S e1 e2 ts code)"
    using pieces_host [OF ne] pieces_device [OF S ne] pieces_dialogue [OF fw ne] ts
    by (simp_all add: tries_ok_def)
  have fr: "fresh ?n0" by (simp add: unlock_of_def fresh_unlock_net)
  have "(prc n Host, loc n Host) = (Ret (Inr code), on Device [] [] ?HA) \<and>
      (prc n Device, loc n Device) = (Halt (if code = Success then DeviceDone else DeviceAbort), on Host [] [] ?HB)"
    by (rule dialogue_session [OF fr _ A _ oH B _ oD idle P fin]) simp_all
  then show ?thesis by simp
qed

subsection \<open>Properties\<close>

text \<open>What cryptsetup was given, and the prompts the user saw.\<close>

definition disk_keys :: "event list \<Rightarrow> bytes list" where
  "disk_keys h = concat (map (\<lambda>e. case e of
     Got a x \<Rightarrow> (case a of Child c \<Rightarrow> (case c of ChildWrite k \<Rightarrow> [k] | _ \<Rightarrow> []) | _ \<Rightarrow> []) | _ \<Rightarrow> []) h)"

definition prompts :: "event list \<Rightarrow> string list list" where
  "prompts h = concat (map (\<lambda>e. case e of
     Got a x \<Rightarrow> (case a of Output p as \<Rightarrow> [as] | _ \<Rightarrow> []) | _ \<Rightarrow> []) h)"

lemma summaries_append [simp]:
  "disk_keys (g @ h) = disk_keys g @ disk_keys h" "prompts (g @ h) = prompts g @ prompts h"
  by (simp_all add: disk_keys_def prompts_def)

lemma summaries_map_Out [simp]:
  "disk_keys (map (\<lambda>c. Out p (f c)) cs) = []" "prompts (map (\<lambda>c. Out p (f c)) cs) = []"
  by (induction cs) (auto simp: disk_keys_def prompts_def)

lemma summaries_auth [simp]:
  "disk_keys (auth_events cr bin b d seed t g) = []" "prompts (auth_events cr bin b d seed t g) = []"
proof -
  have "disk_keys (tty_events @ request_events bin @ poll_events e @ tpm_events k t g @ gate_out g) = []"
    "prompts (tty_events @ request_events bin @ poll_events e @ tpm_events k t g @ gate_out g) = []" for e k
    by (cases g; simp add: tty_events_def request_events_def poll_events_def tpm_events_def gate_out_def
        disk_keys_def prompts_def)+
  then show "disk_keys (auth_events cr bin b d seed t g) = []" "prompts (auth_events cr bin b d seed t g) = []"
    by (auto simp: auth_events_def load_events_def) (simp_all add: disk_keys_def prompts_def)
qed

lemma summaries_tries:
  "disk_keys (tries_events cr cfg cdi tr c ts) = map (\<lambda>(p, k). derived_key cr cfg cdi p) ts"
  "prompts (tries_events cr cfg cdi tr c ts) =
     replicate (length ts) [if tr then prompt_trusted else prompt_untrusted]"
proof (induction ts arbitrary: c)
  case (Cons t ts)
  {
    case 1 show ?case
      using Cons(1) by (cases t) (simp, simp add: try_events_def ask_events_def open_events_def disk_keys_def)
  next
    case 2 show ?case
      using Cons(2) by (cases t) (simp, simp add: try_events_def ask_events_def open_events_def prompts_def)
  }
qed (simp_all add: disk_keys_def prompts_def)

lemma summaries_host:
  "disk_keys (host_trace S ts) = map (\<lambda>(p, k). derived_key (s_cr S) (s_cfg S) (cdi_of S) p) ts"
  "prompts (host_trace S ts) =
     replicate (length ts) [if trusted (s_gate S) then prompt_trusted else prompt_untrusted]"
  unfolding host_trace_def summaries_append summaries_tries
  by (simp_all add: mount_events_def) (simp_all add: disk_keys_def prompts_def)

lemma net_ok_fresh: "fresh n \<Longrightarrow> net_ok n"
  by (simp add: fresh_def)

subsection \<open>The disk\<close>

lemma tries_end_success:
  "tries_end n ts = Some code \<Longrightarrow> code = Success \<longleftrightarrow> (\<exists>(p, k) \<in> set ts. k = Some 0)"
  by (induction n ts rule: tries_end.induct) (auto split: if_splits)

text \<open>
  The child processes that were waited for and ended: the command line, the bytes given on the
  standard input, and the exit code. \<open>cmd\<close> and \<open>fed\<close> are those of the process running.
\<close>

fun child_exits :: "string list \<Rightarrow> bytes \<Rightarrow> event list \<Rightarrow> (string list \<times> bytes \<times> int option) list" where
  "child_exits cmd fed [] = []"
| "child_exits cmd fed (e # h) = (case e of
     Got a x \<Rightarrow> (case a of
       Child c \<Rightarrow> (case c of
         Spawn prog args \<Rightarrow> child_exits (prog # args) [] h
       | ChildWrite bs \<Rightarrow> child_exits cmd (if x = AOk then fed @ bs else fed) h
       | ChildWait \<Rightarrow> (case x of
           ACode code \<Rightarrow> (cmd, fed, code) # child_exits cmd fed h
         | _ \<Rightarrow> child_exits cmd fed h)
       | _ \<Rightarrow> child_exits cmd fed h)
     | _ \<Rightarrow> child_exits cmd fed h)
   | _ \<Rightarrow> child_exits cmd fed h)"

definition open_cmd :: "config \<Rightarrow> string list" where
  "open_cmd cfg = [''/usr/bin/cryptsetup'', ''open'', ''--key-file'', ''-'', ''--keyfile-size'', ''32'',
     ''--batch-mode'', encrypted_disk cfg, luks_uuid cfg]"

lemma child_exits_quiet:
  "\<forall>e \<in> set g. \<forall>c x. e \<noteq> Got (Child c) x \<Longrightarrow> child_exits cmd fed (g @ h) = child_exits cmd fed h"
  by (induction g) (auto split: event.splits act.splits)

lemma child_exits_tries:
  "child_exits cmd fed (tries_events cr cfg cdi tr c ts) =
     map (\<lambda>(p, code). (open_cmd cfg, derived_key cr cfg cdi p, code)) ts"
proof (induction ts arbitrary: cmd fed c)
  case (Cons t ts)
  then show ?case by (cases t) (simp add: try_events_def ask_events_def open_events_def open_cmd_def
      cryptsetup_open_args_def)
qed simp

lemma child_exits_host:
  "child_exits cmd fed (host_trace S ts) =
     map (\<lambda>(p, code). (open_cmd (s_cfg S), derived_key (s_cr S) (s_cfg S) (cdi_of S) p, code)) ts"
proof -
  have "\<forall>e \<in> set (mount_events cfg bin @ auth_events cr bin b d seed t g). \<forall>c x. e \<noteq> Got (Child c) x"
    for cfg cr bin b d seed t g
    by (auto simp: mount_events_def auth_events_def tty_events_def load_events_def request_events_def
        poll_events_def tpm_events_def gate_out_def split: gate.splits)
  from child_exits_quiet [OF this] show ?thesis
    unfolding host_trace_def by (simp add: child_exits_tries)
qed

text \<open>
  The disk of \<open>cfg\<close> is opened by exactly the keys \<open>K\<close>: whenever cryptsetup was run to open it, it
  ended with exit code 0 if and only if one of them was written to its standard input.
\<close>

definition opens_with :: "config \<Rightarrow> bytes set \<Rightarrow> event list \<Rightarrow> bool" where
  "opens_with cfg K h \<longleftrightarrow>
     (\<forall>(cmd, key, code) \<in> set (child_exits [] [] h). cmd = open_cmd cfg \<longrightarrow> (code = Some 0 \<longleftrightarrow> key \<in> K))"

lemma opened_by_key:
  assumes S: "setting_ok S" and fw: "firmware_boots fw (s_bin S) (s_boot S) e1 e2" and ts: "tries_ok S ts code"
    and fin: "sched_run net_step sched (unlock_of S fw fuel ts) = Some n" "final net_step n"
    and disk: "opens_with (s_cfg S) K (trace (loc n Host))"
  shows "prc n Host = Ret (Inr (if \<exists>(p, k) \<in> set ts. derived_key (s_cr S) (s_cfg S) (cdi_of S) p \<in> K
     then Success else Failure))"
proof -
  have "\<forall>(p, k) \<in> set ts. k = Some 0 \<longleftrightarrow> derived_key (s_cr S) (s_cfg S) (cdi_of S) p \<in> K"
    using disk unlock_ends [OF S fw ts fin] by (auto simp: opens_with_def child_exits_host)
  then have "code = Success \<longleftrightarrow> (\<exists>(p, k) \<in> set ts. derived_key (s_cr S) (s_cfg S) (cdi_of S) p \<in> K)"
    using tries_end_success [of 3 ts code] ts by (fastforce simp: tries_ok_def)
  with unlock_ends [OF S fw ts fin] show ?thesis by (cases code) auto
qed

text \<open>In a session with a wrong passphrase and then a right one, cryptsetup answers as such a disk.\<close>

lemma two_tries_opens_with:
  assumes "setting_ok S" "firmware_boots fw (s_bin S) (s_boot S) e1 e2"
    "tries_ok S [(p, Some 2), (q, Some 0)] code"
    "sched_run net_step sched (unlock_of S fw fuel [(p, Some 2), (q, Some 0)]) = Some n" "final net_step n"
    and "derived_key (s_cr S) (s_cfg S) (cdi_of S) p \<notin> K" "derived_key (s_cr S) (s_cfg S) (cdi_of S) q \<in> K"
  shows "opens_with (s_cfg S) K (trace (loc n Host))"
  using unlock_ends [OF assms(1-5)] assms(6,7) by (simp add: opens_with_def child_exits_host)

subsection \<open>Witnesses\<close>

text \<open>A firmware with the protocol of \<open>firmware_boots\<close>, and a setting of zeros.\<close>

definition demo_firmware :: "bytes \<Rightarrow> boot_answers \<Rightarrow> unit proc" where
  "demo_firmware bin b =
    bnd (read_into 129) (\<lambda>_. thn (write_u8_slice (b_resp b))
    (bnd (read_into (length (boot_frames bin))) (\<lambda>_. write_u8_slice (b_acks b @ b_digest b))))"

lemma demo_firmware_boots:
  "firmware_boots (demo_firmware bin b) bin b
    (In Host (load_request bin) # map (\<lambda>b. Out Host [b]) (b_resp b))
    (In Host (boot_frames bin) # map (\<lambda>b. Out Host [b]) (b_acks b @ b_digest b))"
proof -
  have len: "length (load_request bin) = 129" by (simp add: load_request_def to_le_bytes_def)
  show ?thesis
    by (simp add: firmware_boots_def demo_firmware_def on_simps len load_stream_def only_with_map
        flip: boot_frames_def)
qed

definition demo_setting :: setting where
  "demo_setting = \<lparr>s_cr = toy_crypto, s_key = zeros 91,
     s_cfg = \<lparr>luks_uuid = ''luks'', boot_device = ''boot'', encrypted_disk = ''disk'', salt = zeros 16\<rparr>,
     s_bin = zeros 3,
     s_boot = \<lparr>b_resp = zeros 5, b_acks = [], b_digest = zeros 129\<rparr>,
     s_dev = \<lparr>d_nonce = zeros 32, d_enc_nonce = zeros 12, d_seed = zeros 32, d_cdi = zeros 32\<rparr>,
     s_seed = zeros 32, s_tpm = \<lparr>t_digest = zeros 32, t_r = zeros 32, t_s = zeros 32\<rparr>,
     s_gate = Signed (zeros 64)\<rparr>"

lemma demo_gate:
  "gate_opens toy_crypto (zeros 91) (ticket_of toy_crypto (s_dev demo_setting) (zeros 32)) (Signed (zeros 64))"
proof -
  let ?k = "sec1_bytes (zeros 91)" and ?c = "ticket_of toy_crypto (s_dev demo_setting) (zeros 32)"
  have "p256_key toy_crypto ?k = Some ?k" "p256_sig toy_crypto (zeros 64) = Some (zeros 64)"
    "p256_verify toy_crypto ?k ?c (zeros 64)" by code_simp+
  then show ?thesis by (auto simp: gate_opens_def)
qed

lemma demo_setting_ok: "setting_ok demo_setting"
proof -
  have "secrets_ok (s_dev demo_setting)" "length (s_seed demo_setting) = 32"
    "tpm_gives (s_tpm demo_setting) (s_gate demo_setting)" by code_simp+
  moreover have "take 32 (drop 3 (zeros 129)) = take 32 (blake2s256 toy_crypto (zeros 3))"
    "zeros 3 \<noteq> []" "zeros 5 ! 2 = 0" by code_simp+
  then have "boot_ok (s_cr demo_setting) (s_bin demo_setting) (s_boot demo_setting)"
    by (simp add: boot_ok_def demo_setting_def length_chunks)
  ultimately show ?thesis
    using demo_gate toy_crypto_ok by (simp add: setting_ok_def) (simp add: demo_setting_def)
qed

definition demo_tries :: "(bytes \<times> int option) list" where
  "demo_tries = [(replicate 9 0x61, Some 2), (replicate 9 0x62, Some 0)]"

lemma demo_tries_ok: "tries_ok demo_setting demo_tries Success"
  by (simp add: tries_ok_def demo_tries_def usable_def hash_password_def demo_setting_def toy_crypto_def)

subsection \<open>Sessions\<close>

text \<open>
  Property C4. An unlocking session cannot go wrong by timing. Take a firmware that boots the
  app, a TPM that signs (or refuses, and the user touches the key), and tries that end with
  the right passphrase or are three wrong ones. In every interleaving of the TKey and the
  host, every step brings the system closer to one and the same final state: no schedule is
  longer than a fixed number of steps and each can be completed to it. There the host has
  returned Success or Failure as the tries say, the TKey is done or has aborted accordingly,
  and cryptsetup was given, for each passphrase, the BLAKE2s of the CDI and its Argon2 hash;
  the user saw the trusting prompt exactly if the TPM signed.
\<close>

theorem unlock_session_every_schedule:
  assumes "setting_ok S" "firmware_boots fw (s_bin S) (s_boot S) e1 e2" "tries_ok S ts code"
  shows "\<exists>n steps. final net_step n \<and>
    (\<forall>sched m. sched_run net_step sched (unlock_of S fw fuel ts) = Some m \<longrightarrow>
       length sched \<le> steps \<and> (\<exists>rest. sched_run net_step rest m = Some n)) \<and>
    prc n Host = Ret (Inr code) \<and>
    prc n Device = Halt (if code = Success then DeviceDone else DeviceAbort) \<and>
    disk_keys (trace (loc n Host)) = map (\<lambda>(p, k). derived_key (s_cr S) (s_cfg S) (cdi_of S) p) ts \<and>
    prompts (trace (loc n Host)) =
      replicate (length ts) [if trusted (s_gate S) then prompt_trusted else prompt_untrusted]"
proof -
  let ?n0 = "unlock_of S fw fuel ts"
  have "net_ok ?n0" by (simp add: unlock_of_def net_ok_fresh fresh_unlock_net)
  from net.one_end [OF this] obtain n steps where fin: "final net_step n"
    and all: "\<And>sched m. sched_run net_step sched ?n0 = Some m \<Longrightarrow> length sched \<le> steps \<and>
      (\<exists>rest. sched_run net_step rest m = Some n)" by blast
  from all [of "[]" ?n0] obtain rest where "sched_run net_step rest ?n0 = Some n" by auto
  from unlock_ends [OF assms this fin] fin all show ?thesis
    by (intro exI [of _ n] exI [of _ steps]) (simp add: summaries_host)
qed

theorem unlock_session_every_schedule_witness:
  "\<exists>n. final net_step n \<and> prc n Host = Ret (Inr Success) \<and> prc n Device = Halt DeviceDone \<and>
     length (disk_keys (trace (loc n Host))) = 2 \<and>
     prompts (trace (loc n Host)) = [[prompt_trusted], [prompt_trusted]] \<and>
     (\<exists>sched. sched_run net_step sched (unlock_of demo_setting
        (demo_firmware (s_bin demo_setting) (s_boot demo_setting)) 0 demo_tries) = Some n)"
proof -
  let ?n0 = "unlock_of demo_setting (demo_firmware (s_bin demo_setting) (s_boot demo_setting)) 0 demo_tries"
  have [simp]: "length demo_tries = 2" "trusted (s_gate demo_setting)"
    by (simp_all add: demo_tries_def demo_setting_def trusted_def)
  obtain n steps where n: "final net_step n" "prc n Host = Ret (Inr Success)"
    "prc n Device = Halt (if Success = Success then DeviceDone else DeviceAbort)"
    "disk_keys (trace (loc n Host)) =
      map (\<lambda>(p, k). derived_key (s_cr demo_setting) (s_cfg demo_setting) (cdi_of demo_setting) p) demo_tries"
    "prompts (trace (loc n Host)) = replicate (length demo_tries)
      [if trusted (s_gate demo_setting) then prompt_trusted else prompt_untrusted]"
    and all: "\<forall>sched m. sched_run net_step sched ?n0 = Some m \<longrightarrow>
      length sched \<le> steps \<and> (\<exists>rest. sched_run net_step rest m = Some n)"
    using unlock_session_every_schedule [OF demo_setting_ok demo_firmware_boots demo_tries_ok, of 0] by blast
  from all [rule_format, of "[]" ?n0] obtain rest where "sched_run net_step rest ?n0 = Some n" by auto
  with n show ?thesis by (intro exI [of _ n]) (auto simp: numeral_eq_Suc)
qed

text \<open>
  Property C3. The right passphrase opens the disk, and only it. Assume of the disk only that
  exactly the keys \<open>K\<close> open it: each cryptsetup run on it in the session ended with 0 if and only
  if the bytes that the host had written to its standard input are in \<open>K\<close>. Then in every
  completed session, in every schedule, the host has returned Success if one of the passphrases
  typed derives (BLAKE2s of the CDI and the Argon2 hash) a key in \<open>K\<close>, and Failure otherwise.
\<close>

theorem right_passphrase_opens:
  assumes "setting_ok S" "firmware_boots fw (s_bin S) (s_boot S) e1 e2" "tries_ok S ts code"
    and "sched_run net_step sched (unlock_of S fw fuel ts) = Some n" "final net_step n"
    and "opens_with (s_cfg S) K (trace (loc n Host))"
  shows "prc n Host = Ret (Inr (if \<exists>(p, k) \<in> set ts. derived_key (s_cr S) (s_cfg S) (cdi_of S) p \<in> K
     then Success else Failure))"
  by (rule opened_by_key [OF assms])

theorem right_passphrase_opens_witness:
  "\<exists>n :: (box_error + exit_code) net. final net_step n \<and> prc n Host = Ret (Inr Success)"
proof -
  let ?n0 = "unlock_of demo_setting (demo_firmware (s_bin demo_setting) (s_boot demo_setting)) 0 demo_tries"
  let ?key = "derived_key (s_cr demo_setting) (s_cfg demo_setting) (cdi_of demo_setting)"
  obtain ps n where n: "sched_run net_step ps ?n0 = Some n" "final net_step n"
    using net.ends [of ?n0] by blast
  have "?key (replicate 9 0x61) \<notin> {?key (replicate 9 0x62)}" by code_simp
  then have "opens_with (s_cfg demo_setting) {?key (replicate 9 0x62)} (trace (loc n Host))"
    by (rule two_tries_opens_with [OF demo_setting_ok demo_firmware_boots demo_tries_ok [unfolded demo_tries_def]
        n(1) [unfolded demo_tries_def] n(2)]) simp
  from right_passphrase_opens [OF demo_setting_ok demo_firmware_boots demo_tries_ok n this] n(2)
  show ?thesis by (auto simp: demo_tries_def)
qed

end
