(* ===== verification/Script.thy ===== *)
theory Script
  imports Dialogue
begin

text \<open>
  Any number of programs that talk in turn: the generalisation of dialogues to a script, a list
  of pieces each spoken by one party. A piece reads everything that has been sent to its party
  and not been read. If the traces the programs make on each other's bytes are a script, every
  schedule of the network that ends has made exactly them (\<open>script_session\<close>).
\<close>

lemma all_port: "(\<forall>p. P p) \<longleftrightarrow> P Device \<and> P Host \<and> P Dom0"
  by (metis port.exhaust)

text \<open>\<open>pend q p\<close> is what \<open>p\<close> has sent to \<open>q\<close> and \<open>q\<close> has not read.\<close>

fun scripted :: "(port \<Rightarrow> port \<Rightarrow> bytes) \<Rightarrow> (port \<times> event list) list \<Rightarrow> bool" where
  "scripted pend [] = True"
| "scripted pend ((q, es) # ps) = ((\<forall>p. got p es = pend q p) \<and>
     scripted (\<lambda>r p. (if r = q then [] else pend r p) @ (if p = q then sent r es else [])) ps)"

definition spoken :: "port \<Rightarrow> (port \<times> event list) list \<Rightarrow> event list" where
  "spoken q ps = concat (map (\<lambda>(p, es). if p = q then es else []) ps)"

lemma spoken_simps [simp]:
  "spoken q [] = []" "spoken q ((p, es) # ps) = (if p = q then es else []) @ spoken q ps"
  "spoken q (ps @ qs) = spoken q ps @ spoken q qs"
  by (simp_all add: spoken_def)

text \<open>The bytes on the lines when the parties have made the traces \<open>h\<close>.\<close>

definition lines_of :: "(port \<Rightarrow> event list) \<Rightarrow> port \<Rightarrow> port \<Rightarrow> bytes" where
  "lines_of h r q = sent r (h q)"

lemma script_shown:
  assumes fr: "fresh n" and alone: "\<And>q. trace (snd (alone n (lines_of H) q)) = H q"
  shows "shown n (lines_of h) \<Longrightarrow> (\<And>q p. got p (h q) @ pend q p = sent q (h p)) \<Longrightarrow>
    (\<And>q. H q = h q @ spoken q ps) \<Longrightarrow> scripted pend ps \<Longrightarrow> shown n (lines_of H)"
proof (induction ps arbitrary: h pend)
  case Nil
  then have "H = h" by auto
  with Nil show ?case by simp
next
  case (Cons pe ps)
  obtain q es where pe: "pe = (q, es)" by (cases pe)
  let ?h = "h(q := h q @ es)"
  let ?pend = "\<lambda>r p. (if r = q then [] else pend r p) @ (if p = q then sent r es else [])"
  have sc: "scripted ?pend ps" and g: "\<And>p. got p es = pend q p"
    using Cons.prems(4) by (simp_all add: pe)
  have le: "traffic_le (lines_of h) (lines_of H)"
    by (simp add: traffic_le_def lines_of_def Cons.prems(3))
  have "shown n (\<lambda>r p. if p = q then sent r (h q @ es) else lines_of h r p)"
  proof (rule shown_round [OF fr Cons.prems(1) le])
    show "trace (snd (alone n (lines_of H) q)) = (h q @ es) @ spoken q ps"
      using alone [of q] Cons.prems(3) [of q] by (simp add: pe)
    show "\<forall>p. length (got p (h q @ es)) \<le> length (lines_of h q p)"
      by (simp add: g lines_of_def flip: Cons.prems(2))
    show "\<forall>r. \<exists>x. sent r (h q @ es) = lines_of h r q @ x"
      by (simp add: lines_of_def)
  qed
  moreover have "(\<lambda>r p. if p = q then sent r (h q @ es) else lines_of h r p) = lines_of ?h"
    by (intro ext) (simp add: lines_of_def)
  ultimately have "shown n (lines_of ?h)" by simp
  moreover have "got p (?h r) @ ?pend r p = sent r (?h p)" for r p
    using Cons.prems(2) [of p r] by (simp add: g) (metis append.assoc)
  moreover have "H r = ?h r @ spoken r ps" for r
    using Cons.prems(3) [of r] by (simp add: pe)
  ultimately show ?case using sc by (rule Cons.IH)
qed

lemma script_session:
  assumes fr: "fresh n0"
    and alone: "\<And>q. alone n0 (lines_of H) q = (Pr q, S q)" "\<And>q. trace (S q) = H q"
    and ps: "\<And>q. H q = spoken q ps" "scripted (\<lambda>r p. []) ps"
    and fin: "sched_run net_step sched n0 = Some n" "final net_step n"
  shows "(prc n q, loc n q) = (Pr q, S q)"
proof -
  have "lines_of (\<lambda>q. []) = (\<lambda>r q. [])" by (intro ext) (simp add: lines_of_def)
  then have "shown n0 (lines_of (\<lambda>q. []))" using shown_none [of n0] by simp
  from script_shown [OF fr _ this _ _ ps(2)] alone ps(1) have shown: "shown n0 (lines_of H)"
    by simp
  have "flow n0 (lines_of H) = lines_of H"
    by (intro ext) (simp add: flow_def lines_of_def alone)
  from session_by_rounds [OF fr shown this fin] alone(1) show ?thesis by simp
qed

end
