(* ===== verification/EnrollSession.thy ===== *)
theory EnrollSession
  imports Session
begin

text \<open>
  Whole enrolling sessions: the TKey and the program of host/src/bin/enroll.rs, in every
  schedule; and what enrolling and unlocking have to do with each other: the key a passphrase
  was enrolled with is the key it unlocks with.
\<close>

subsection \<open>Entering a new passphrase\<close>

text \<open>
  Pairs of entries that are refused: they differ, or are too short. \<open>newline p\<close> is what
  systemd-ask-password prints for the passphrase that rpassword returns as \<open>p\<close>.
\<close>

definition refused :: "bytes \<times> bytes \<Rightarrow> bool" where
  "refused e \<longleftrightarrow> fst e \<noteq> snd e \<or> length (fst e) < 8"

definition newline :: "bytes \<Rightarrow> bytes" where
  "newline p = p @ [0x0A]"

fun entry_answers :: "bytes \<times> bytes \<Rightarrow> ans list" where
  "entry_answers (a, b) = [ABytes a, ABytes b]"

fun entry_events :: "bytes \<times> bytes \<Rightarrow> event list" where
  "entry_events (a, b) = [Got PromptPassword (ABytes a), Got PromptPassword (ABytes b)] @
     (if a = b then [Did (Zeroize ''pass_len'')] else [])"

definition typed :: "bytes \<times> bytes \<Rightarrow> bool" where
  "typed e \<longleftrightarrow> utf8_valid (fst e) \<and> utf8_valid (snd e)"

lemma hash_newline: "hash_password cr cfg p = Some h \<Longrightarrow> pass_hash cr cfg (newline p) = h"
  by (simp add: pass_hash_def newline_def)

definition accepted_events :: "crypto \<Rightarrow> config \<Rightarrow> cipher \<Rightarrow> bytes \<Rightarrow> event list" where
  "accepted_events cr cfg c p = [Got PromptPassword (ABytes p), Got PromptPassword (ABytes p),
     Did (Keystream (cpos c) 32), Out Device (sealed_hash cr cfg c (newline p)),
     Did (Zeroize ''password_hash''), Did (Zeroize ''pass_len'')]"

lemma on_pass_enroll:
  assumes cr: "crypto_ok cr" and p: "usable cr cfg (newline p)" "utf8_valid p"
  shows "\<forall>e \<in> set bad. refused e \<and> typed e \<Longrightarrow>
    run (bnd (enroll_pass_enroll cr cfg (length bad + Suc fuel) c) f)
      (on Device (0x21 # ys) (concat (map entry_answers bad) @ [ABytes p, ABytes p] @ T) H) =
    run (f (Inr (advance 32 c))) (on Device ys T
      (H @ concat (map entry_events bad) @ accepted_events cr cfg c p @ [In Device [0x21]]))"
proof (induction bad arbitrary: H)
  case Nil
  obtain h where h: "hash_password cr cfg p = Some h"
    using p(1) by (auto simp: usable_def newline_def)
  have len: "length h = 32" using length_pass_hash [OF cr p(1)] hash_newline [OF h] by simp
  have "\<not> length p < 8" using p(1) by (simp add: usable_def newline_def)
  with h len hash_newline [OF h] p(2) show ?case
    by (simp add: on_simps Let_def crypt_def accepted_events_def sealed_hash_def advance_def
        client_message_try_from_def)
next
  case (Cons e bad)
  obtain a b where e: "e = (a, b)" by (cases e)
  from Cons.prems have ab: "refused (a, b)" "typed (a, b)" by (simp_all add: e)
  with Cons show ?case
    by (cases "a = b") (simp_all add: e refused_def typed_def on_simps Let_def)
qed

declare enroll_pass_enroll.simps(2) [simp del]

subsection \<open>Adding the key\<close>

definition add_events :: "config \<Rightarrow> cipher \<Rightarrow> bytes \<Rightarrow> bytes \<Rightarrow> bytes \<Rightarrow> event list" where
  "add_events cfg c cur sealed key = [Got PromptPassword (ABytes cur),
     Got (Child (Spawn ''/usr/sbin/cryptsetup'' (luks_add_key_args cfg (length cur)))) AOk,
     Got (Child TakeStdin) AOk, Got (Child (ChildWrite cur)) AOk, Did (Zeroize ''current_pass''),
     In Device sealed, Did (Keystream (cpos c) 32), Did (Zeroize ''encrypted_keyfile''),
     Got (Child (ChildWrite key)) AOk, Did (Zeroize ''keyfile''), Got (Child ChildWait) (ACode (Some 0)),
     Out Device [0x99]]"

definition add_answers :: "bytes \<Rightarrow> ans list" where
  "add_answers cur = [ABytes cur, AOk, AOk, AOk, AOk, ACode (Some 0)]"

lemma on_enroll_enroll:
  assumes "length sealed = 32" "utf8_valid cur" "fst (crypt c sealed) = key"
  shows "run (bnd (enroll_enroll cfg c) f) (on Device (sealed @ ys) (add_answers cur @ T) H) =
    run (f (Inr ())) (on Device ys T (H @ add_events cfg c cur sealed key))"
  using assms
  by (simp add: enroll_enroll_def add_answers_def on_simps Let_def add_events_def crypt_def)


subsection \<open>The program\<close>

text \<open>What the user types: refused pairs, the new passphrase, the current one.\<close>

record entries =
  n_bad :: "(bytes \<times> bytes) list"
  n_pass :: bytes
  n_cur :: bytes

definition entries_ok :: "setting \<Rightarrow> entries \<Rightarrow> bool" where
  "entries_ok S E \<longleftrightarrow> (\<forall>e \<in> set (n_bad E). refused e \<and> typed e) \<and> utf8_valid (n_pass E) \<and>
     utf8_valid (n_cur E) \<and> usable (s_cr S) (s_cfg S) (newline (n_pass E))"

definition enroll_tape :: "setting \<Rightarrow> entries \<Rightarrow> ans list" where
  "enroll_tape S E = auth_answers (s_bin S) (s_seed S) (s_tpm S) (s_gate S) @
     concat (map entry_answers (n_bad E)) @ [ABytes (n_pass E), ABytes (n_pass E)] @ add_answers (n_cur E)"

definition enroll_tail :: "setting \<Rightarrow> entries \<Rightarrow> event list" where
  "enroll_tail S E = (let c = session_stream S; sealed = newline (n_pass E) in
     [In Device [0x22]] @ concat (map entry_events (n_bad E)) @
     accepted_events (s_cr S) (s_cfg S) c (n_pass E) @ [In Device [0x21]] @
     add_events (s_cfg S) (advance 32 c) (n_cur E) (sealed_key (s_cr S) (s_cfg S) (cdi_of S) c sealed)
       (derived_key (s_cr S) (s_cfg S) (cdi_of S) sealed))"

definition enroll_trace :: "setting \<Rightarrow> entries \<Rightarrow> event list" where
  "enroll_trace S E = auth_events (s_cr S) (s_bin S) (s_boot S) (s_dev S) (s_seed S) (s_tpm S) (s_gate S) @
     enroll_tail S E"

definition one_try :: "entries \<Rightarrow> (bytes \<times> int option) list" where
  "one_try E = [(newline (n_pass E), Some 0)]"

lemma on_enroll_main:
  assumes S: "setting_ok S" and E: "entries_ok S E" and bin: "1000 \<le> length (s_bin S)"
  shows "run (enroll_main (s_cr S) (s_cfg S) (s_bin S) (length (n_bad E) + Suc fuel))
      (on Device (boot_bytes (s_boot S) @ hello (s_cr S) (s_dev S) @ gate_reply (s_gate S) #
          tries_in (s_cr S) (s_cfg S) (cdi_of S) (session_stream S) (one_try E)) (enroll_tape S E) []) =
    (Ret (Inr Success), on Device [] [] (enroll_trace S E))"
proof -
  note cr = setting_okD(1) [OF S]
  let ?p = "newline (n_pass E)" and ?c = "session_stream S"
  have E': "usable (s_cr S) (s_cfg S) ?p" "utf8_valid (n_pass E)" "utf8_valid (n_cur E)"
    "\<forall>e \<in> set (n_bad E). refused e \<and> typed e" using E by (simp_all add: entries_ok_def)
  have key: "length (derived_key (s_cr S) (s_cfg S) (cdi_of S) ?p) = 32"
    using crypto_okD(3) [OF cr] by (simp add: derived_key_def)
  then have sealed: "length (sealed_key (s_cr S) (s_cfg S) (cdi_of S) ?c ?p) = 32"
    "fst (crypt (advance 32 ?c) (sealed_key (s_cr S) (s_cfg S) (cdi_of S) ?c ?p)) =
      derived_key (s_cr S) (s_cfg S) (cdi_of S) ?p"
    by (simp_all add: sealed_key_def session.inverse)
  note pass = on_pass_enroll [OF cr E'(1,2,4), simplified]
  note add = on_enroll_enroll [OF sealed(1) E'(3) sealed(2), where ys = "[]" and T = "[]", simplified]
  show ?thesis
    using bin
    by (simp add: enroll_main_def enroll_tape_def one_try_def expect_ready_def on_simps
        on_auth [OF setting_okD(1,2,3,4,5) [OF S] session_streams(1) [OF S]] pass add
        client_message_try_from_def enroll_trace_def enroll_tail_def Let_def)
qed


subsection \<open>The session\<close>

definition enroll_of :: "setting \<Rightarrow> unit proc \<Rightarrow> nat \<Rightarrow> entries \<Rightarrow> (box_error + exit_code) net" where
  "enroll_of S fw fuel E = app_net (tkey fw (s_cr S) (s_key S))
     (enroll_main (s_cr S) (s_cfg S) (s_bin S) (length (n_bad E) + Suc fuel))
     (tkey_tape S (one_try E)) (enroll_tape S E)"

lemma one_try_ok: "entries_ok S E \<Longrightarrow> tries_ok S (one_try E) Success"
  by (simp add: tries_ok_def one_try_def entries_ok_def)

lemma quiet_entries [simp]:
  "sent q (concat (map entry_events bad)) = []" "got q (concat (map entry_events bad)) = []"
  "only_with q (concat (map entry_events bad))"
  by (induction bad) (auto simp: split: if_splits)

text \<open>The TKey cannot tell enrolling from unlocking with the same passphrase.\<close>

lemma sent_enroll: "sent Device (enroll_trace S E) = sent Device (host_trace S (one_try E))"
  by (simp add: enroll_trace_def host_trace_def enroll_tail_def one_try_def Let_def accepted_events_def
      add_events_def try_events_def ask_events_def open_events_def verdict_byte_def)

definition enroll_pieces :: "setting \<Rightarrow> event list \<Rightarrow> event list \<Rightarrow> entries \<Rightarrow> (event list \<times> event list) list" where
  "enroll_pieces S e1 e2 E = (let c = session_stream S; p = newline (n_pass E) in prologue S e1 e2 @
    [([In Device [gate_reply (s_gate S)], In Device [0x22]] @ concat (map entry_events (n_bad E)) @
       accepted_events (s_cr S) (s_cfg S) c (n_pass E),
     answered (s_cr S) (s_cfg S) (cdi_of S) c p),
    ([In Device [0x21]] @ add_events (s_cfg S) (advance 32 c) (n_cur E)
       (sealed_key (s_cr S) (s_cfg S) (cdi_of S) c p) (derived_key (s_cr S) (s_cfg S) (cdi_of S) p),
     judged (Some 0) @ epilogue_events)])"

lemma enroll_pieces_host: "concat (map fst (enroll_pieces S e1 e2 E)) = enroll_trace S E"
  by (simp add: enroll_pieces_def enroll_trace_def enroll_tail_def prologue_host_more Let_def)

lemma enroll_pieces_device:
  assumes "setting_ok S" "entries_ok S E"
  shows "concat (map snd (enroll_pieces S e1 e2 E)) = tkey_trace S (e1 @ e2) (one_try E) Success"
  using dev_attempt_pieces [OF setting_okD(1) [OF assms(1)], of "s_cfg S" "newline (n_pass E)"
      "session_stream S" "cdi_of S" "Some 0"] assms(2)
  by (simp add: enroll_pieces_def tkey_trace_def one_try_def end_events_def entries_ok_def prologue_device Let_def)

lemma enroll_pieces_dialogue:
  assumes "firmware_boots fw (s_bin S) (s_boot S) e1 e2"
  shows "dialogue Host Device [] (enroll_pieces S e1 e2 E)"
  by (simp add: enroll_pieces_def prologue_dialogue [OF assms] Let_def accepted_events_def
      answered_def add_events_def judged_def verdict_byte_def epilogue_events_def)

lemma only_with_enroll: "only_with Device (enroll_trace S E)"
  using only_with_host [of S "[]"]
  by (simp add: enroll_trace_def host_trace_def enroll_tail_def Let_def accepted_events_def add_events_def)

lemma enroll_ends:
  assumes S: "setting_ok S" and fw: "firmware_boots fw (s_bin S) (s_boot S) e1 e2" and E: "entries_ok S E"
    and bin: "1000 \<le> length (s_bin S)"
    and fin: "sched_run net_step sched (enroll_of S fw fuel E) = Some n" "final net_step n"
  shows "prc n Host = Ret (Inr Success) \<and> trace (loc n Host) = enroll_trace S E \<and>
    prc n Device = Halt DeviceDone \<and> trace (loc n Device) = tkey_trace S (e1 @ e2) (one_try E) Success"
proof -
  let ?n0 = "enroll_of S fw fuel E"
  let ?HA = "enroll_trace S E" and ?HB = "tkey_trace S (e1 @ e2) (one_try E) Success"
  note oH = only_with_enroll [of S E]
  have oD: "only_with Host ?HB"
    by (rule only_with_device) (use fw in \<open>simp add: firmware_boots_def\<close>)
  have lines: "talk Host Device ?HA ?HB Host = (\<lambda>_. [])(Device := sent Host ?HB)"
    "talk Host Device ?HA ?HB Device = (\<lambda>_. [])(Host := sent Device ?HA)"
    using oH oD by (auto simp: talk_def only_with_def fun_eq_iff)
  have "sent Host ?HB = boot_bytes (s_boot S) @ hello (s_cr S) (s_dev S) @ gate_reply (s_gate S) #
      tries_in (s_cr S) (s_cfg S) (cdi_of S) (session_stream S) (one_try E)"
    using fw one_try_ok [OF E]
    by (simp add: tkey_trace_def firmware_boots_def boot_bytes_def tries_ok_def
        sent_dev_loop [OF setting_okD(1) [OF S]])
  then have A: "alone ?n0 (talk Host Device ?HA ?HB) Host = (Ret (Inr Success), on Device [] [] ?HA)"
    using on_enroll_main [OF S E bin, of fuel]
    by (simp add: alone_def lines enroll_of_def app_net_def feed_all_on)
  have B: "alone ?n0 (talk Host Device ?HA ?HB) Device = (Halt DeviceDone, on Host [] [] ?HB)"
    using tkey_alone [OF S fw one_try_ok [OF E]]
    by (simp add: alone_def lines enroll_of_def app_net_def feed_all_on sent_enroll)
  have idle: "\<exists>h. prc ?n0 c = Halt h" if "c \<noteq> Host" "c \<noteq> Device" for c
    using that by (cases c) (simp_all add: enroll_of_def app_net_def)
  have fr: "fresh ?n0" by (simp add: enroll_of_def fresh_def app_net_def net_ok_def)
  have "(prc n Host, loc n Host) = (Ret (Inr Success), on Device [] [] ?HA) \<and>
      (prc n Device, loc n Device) = (Halt DeviceDone, on Host [] [] ?HB)"
    by (rule dialogue_session [OF fr _ A _ oH B _ oD idle enroll_pieces_host [symmetric]
          enroll_pieces_device [OF S E, symmetric] enroll_pieces_dialogue [OF fw] fin]) simp_all
  then show ?thesis by simp
qed


lemma disk_keys_entries [simp]: "disk_keys (concat (map entry_events bad)) = []"
proof (induction bad)
  case (Cons e bad)
  then show ?case by (cases e) (simp add: disk_keys_def)
qed (simp add: disk_keys_def)

lemma disk_keys_enroll:
  "disk_keys (enroll_trace S E) = [n_cur E, derived_key (s_cr S) (s_cfg S) (cdi_of S) (newline (n_pass E))]"
proof -
  have "disk_keys (In Device [0x22] # h) = disk_keys h" "disk_keys (In Device [0x21] # h) = disk_keys h"
    "disk_keys (accepted_events cr cfg c p) = []" "disk_keys (add_events cfg c cur sealed key) = [cur, key]"
    for h cr cfg c p cur sealed key
    by (simp_all add: disk_keys_def accepted_events_def add_events_def)
  then show ?thesis by (simp add: enroll_trace_def enroll_tail_def Let_def)
qed

subsection \<open>Properties\<close>

text \<open>
  Property C8. An enrolling session ends the same way in every schedule. The user may first
  type any number of pairs that differ or are too short; they are refused without a word to
  the TKey. Then every interleaving of the TKey and the host can be completed, within a fixed
  number of steps, to one final state, in which the host has returned Success, the TKey is
  done, and cryptsetup was given the current passphrase and the new key: the BLAKE2s of the
  CDI and the Argon2 hash of the new passphrase.
\<close>

theorem enroll_session_every_schedule:
  assumes "setting_ok S" "firmware_boots fw (s_bin S) (s_boot S) e1 e2" "entries_ok S E"
    "1000 \<le> length (s_bin S)"
  shows "\<exists>n steps. final net_step n \<and>
    (\<forall>sched m. sched_run net_step sched (enroll_of S fw fuel E) = Some m \<longrightarrow>
       length sched \<le> steps \<and> (\<exists>rest. sched_run net_step rest m = Some n)) \<and>
    prc n Host = Ret (Inr Success) \<and> prc n Device = Halt DeviceDone \<and>
    disk_keys (trace (loc n Host)) =
      [n_cur E, derived_key (s_cr S) (s_cfg S) (cdi_of S) (newline (n_pass E))]"
proof -
  let ?n0 = "enroll_of S fw fuel E"
  have "net_ok ?n0" by (simp add: enroll_of_def app_net_def net_ok_def)
  from net.one_end [OF this] obtain n steps where fin: "final net_step n"
    and all: "\<And>sched m. sched_run net_step sched ?n0 = Some m \<Longrightarrow> length sched \<le> steps \<and>
      (\<exists>rest. sched_run net_step rest m = Some n)" by blast
  from all [of "[]" ?n0] obtain rest where "sched_run net_step rest ?n0 = Some n" by auto
  from enroll_ends [OF assms this fin] fin all show ?thesis
    by (intro exI [of _ n] exI [of _ steps]) (simp add: disk_keys_enroll)
qed

text \<open>A setting with a binary that is long enough, and entries of which the first pair differs.\<close>

definition demo_enrolling :: setting where
  "demo_enrolling = demo_setting\<lparr>s_bin := zeros 1000,
     s_boot := \<lparr>b_resp = zeros 5, b_acks = zeros 35, b_digest = zeros 129\<rparr>\<rparr>"

definition demo_entries :: entries where
  "demo_entries = \<lparr>n_bad = [(replicate 8 0x61, replicate 8 0x62)], n_pass = replicate 8 0x62, n_cur = [0x63]\<rparr>"

lemma demo_enrolling_ok: "setting_ok demo_enrolling" "1000 \<le> length (s_bin demo_enrolling)"
  "entries_ok demo_enrolling demo_entries"
proof -
  have ne: "zeros 1000 \<noteq> []" by (simp add: zeros_def)
  have "take 32 (drop 3 (zeros 129)) = take 32 (blake2s256 toy_crypto (zeros 1000))" "zeros 5 ! 2 = 0"
    by code_simp+
  with ne have "boot_ok toy_crypto (zeros 1000) (s_boot demo_enrolling)"
    by (simp add: boot_ok_def demo_enrolling_def length_chunks)
  with demo_setting_ok show "setting_ok demo_enrolling" by (simp add: setting_ok_def demo_enrolling_def demo_setting_def)
  show "1000 \<le> length (s_bin demo_enrolling)" by (simp add: demo_enrolling_def)
  have "utf8_valid (replicate n 0x61)" "utf8_valid (replicate n 0x62)" "utf8_valid [0x63]" for n
    by (induction n) simp_all
  moreover have "replicate 8 (0x61 :: byte) \<noteq> replicate 8 0x62" by code_simp
  ultimately show "entries_ok demo_enrolling demo_entries"
    by (simp add: entries_ok_def demo_entries_def demo_enrolling_def demo_setting_def usable_def newline_def
        hash_password_def toy_crypto_def refused_def typed_def)
qed

theorem enroll_session_every_schedule_witness:
  "\<exists>n. final net_step n \<and> prc n Host = Ret (Inr Success) \<and> prc n Device = Halt DeviceDone \<and>
     hd (disk_keys (trace (loc n Host))) = [0x63] \<and>
     (\<exists>sched. sched_run net_step sched (enroll_of demo_enrolling
        (demo_firmware (s_bin demo_enrolling) (s_boot demo_enrolling)) 0 demo_entries) = Some n)"
proof -
  let ?n0 = "enroll_of demo_enrolling (demo_firmware (s_bin demo_enrolling) (s_boot demo_enrolling)) 0 demo_entries"
  from enroll_session_every_schedule [OF demo_enrolling_ok(1) demo_firmware_boots demo_enrolling_ok(3,2), of 0]
  obtain n steps where n: "final net_step n" "prc n Host = Ret (Inr Success)" "prc n Device = Halt DeviceDone"
    "disk_keys (trace (loc n Host)) = [n_cur demo_entries, derived_key (s_cr demo_enrolling) (s_cfg demo_enrolling)
      (cdi_of demo_enrolling) (newline (n_pass demo_entries))]"
    and all: "\<forall>sched m. sched_run net_step sched ?n0 = Some m \<longrightarrow>
      length sched \<le> steps \<and> (\<exists>rest. sched_run net_step rest m = Some n)" by blast
  from all [rule_format, of "[]" ?n0] obtain rest where "sched_run net_step rest ?n0 = Some n" by auto
  with n show ?thesis by (intro exI [of _ n]) (auto simp: demo_entries_def)
qed

text \<open>
  Property C2. What was enrolled unlocks. Take a completed enrolling session and any later
  completed unlocking session with the same TKey and app (the same CDI) and the same salt;
  everything else may differ: nonces, key pairs, the TPM's signature, the firmware's answers,
  even whether the TPM signs. If the disk is opened by exactly the key that cryptsetup was given
  when enrolling, that is, each cryptsetup of the unlocking session ended with 0 if and only if
  this key was written to its standard input, then the host returns Success if the user types
  the enrolled passphrase in one of the tries (systemd-ask-password adds a newline, which
  \<open>ask_for_password\<close> drops), and Failure if no passphrase typed derives that key.
\<close>

theorem enrolled_passphrase_unlocks:
  assumes enroll: "setting_ok S" "firmware_boots fw (s_bin S) (s_boot S) e1 e2" "entries_ok S E"
      "1000 \<le> length (s_bin S)"
      "sched_run net_step sched (enroll_of S fw fuel E) = Some n" "final net_step n"
    and unlock: "setting_ok S'" "firmware_boots fw' (s_bin S') (s_boot S') e1' e2'" "tries_ok S' ts code"
      "sched_run net_step sched' (unlock_of S' fw' fuel' ts) = Some n'" "final net_step n'"
    and same: "s_cr S' = s_cr S" "salt (s_cfg S') = salt (s_cfg S)" "cdi_of S' = cdi_of S"
    and disk: "opens_with (s_cfg S') {last (disk_keys (trace (loc n Host)))} (trace (loc n' Host))"
  shows "prc n' Host = Ret (Inr (if newline (n_pass E) \<in> fst ` set ts then Success
    else if \<exists>(p, k) \<in> set ts. derived_key (s_cr S) (s_cfg S) (cdi_of S) p =
      derived_key (s_cr S) (s_cfg S) (cdi_of S) (newline (n_pass E)) then Success else Failure))"
proof -
  have key: "derived_key (s_cr S') (s_cfg S') (cdi_of S') p = derived_key (s_cr S) (s_cfg S) (cdi_of S) p" for p
    using same by (simp add: derived_key_def pass_hash_def hash_password_def)
  have "last (disk_keys (trace (loc n Host))) = derived_key (s_cr S) (s_cfg S) (cdi_of S) (newline (n_pass E))"
    using enroll_ends [OF enroll] by (simp add: disk_keys_enroll)
  with opened_by_key [OF unlock disk] show ?thesis
    unfolding key by (auto split: if_splits)
qed

definition demo_unlock_tries :: "(bytes \<times> int option) list" where
  "demo_unlock_tries = [(replicate 9 0x61, Some 2), (newline (replicate 8 0x62), Some 0)]"

theorem enrolled_passphrase_unlocks_witness:
  "\<exists>n :: (box_error + exit_code) net. final net_step n \<and> prc n Host = Ret (Inr Success) \<and>
     (\<exists>sched. sched_run net_step sched (unlock_of demo_setting
        (demo_firmware (s_bin demo_setting) (s_boot demo_setting)) 0 demo_unlock_tries) = Some n)"
proof -
  let ?E = "enroll_of demo_enrolling (demo_firmware (s_bin demo_enrolling) (s_boot demo_enrolling)) 0 demo_entries"
  let ?U = "unlock_of demo_setting (demo_firmware (s_bin demo_setting) (s_boot demo_setting)) 0 demo_unlock_tries"
  let ?key = "derived_key (s_cr demo_setting) (s_cfg demo_setting) (cdi_of demo_setting)"
  obtain sched n where n: "sched_run net_step sched ?E = Some n" "final net_step n" using net.ends [of ?E] by blast
  obtain sched' n' where n': "sched_run net_step sched' ?U = Some n'" "final net_step n'" using net.ends [of ?U] by blast
  have same: "s_cr demo_setting = s_cr demo_enrolling" "salt (s_cfg demo_setting) = salt (s_cfg demo_enrolling)"
    "cdi_of demo_setting = cdi_of demo_enrolling" by (simp_all add: demo_enrolling_def demo_setting_def)
  have ok: "tries_ok demo_setting demo_unlock_tries Success"
    by (simp add: tries_ok_def demo_unlock_tries_def usable_def hash_password_def demo_setting_def toy_crypto_def newline_def)
  have K: "last (disk_keys (trace (loc n Host))) = ?key (newline (replicate 8 0x62))"
    using enroll_ends [OF demo_enrolling_ok(1) demo_firmware_boots demo_enrolling_ok(3,2) n]
    by (simp add: disk_keys_enroll demo_entries_def) (simp add: demo_enrolling_def demo_setting_def)
  have "?key (replicate 9 0x61) \<notin> {?key (newline (replicate 8 0x62))}" by code_simp
  then have "opens_with (s_cfg demo_setting) {last (disk_keys (trace (loc n Host)))} (trace (loc n' Host))"
    unfolding K
    by (rule two_tries_opens_with [OF demo_setting_ok demo_firmware_boots ok [unfolded demo_unlock_tries_def]
        n'(1) [unfolded demo_unlock_tries_def] n'(2)]) simp
  from enrolled_passphrase_unlocks [OF demo_enrolling_ok(1) demo_firmware_boots demo_enrolling_ok(3,2) n
      demo_setting_ok demo_firmware_boots ok n' same this] n'
  show ?thesis by (intro exI [of _ n']) (auto simp: demo_unlock_tries_def demo_entries_def)
qed

end
