(* ===== verification/QubesSession.thy ===== *)
theory QubesSession
  imports Script EnrollSession QubesSafety
begin

text \<open>
  Whole enrolling sessions on Qubes, with three programs: the TKey, qubes_enroll in the
  disposable VM (host/src/bin/qubes_enroll.rs) and verify in dom0 (host/src/bin/verify.rs). The
  VM stands between the two others: \<open>vm bs ds T H\<close> is its environment, with \<open>bs\<close> to be read from
  the TKey and \<open>ds\<close> from dom0. Each program is run alone, one lemma per phase; a script of who
  speaks when puts the three runs together, in every schedule.
\<close>

subsection \<open>Two peers\<close>

definition vm :: "bytes \<Rightarrow> bytes \<Rightarrow> ans list \<Rightarrow> event list \<Rightarrow> env" where
  "vm bs ds T H = feed Dom0 ds (on Device bs T H)"

lemma vm_sel [simp]:
  "inbox (vm bs ds T H) = (\<lambda>_. [])(Device := bs, Dom0 := ds)" "eof (vm bs ds T H) = (\<lambda>_. False)"
  "quota (vm bs ds T H) = (\<lambda>_. None)" "tape (vm bs ds T H) = T" "trace (vm bs ds T H) = H"
  by (auto simp: vm_def fun_eq_iff)

text \<open>What a program does with one peer it does with the other one waiting.\<close>

lemma vm_lift:
  "run p (on Device bs T H) = run p' (on Device bs' T' H') \<Longrightarrow> run p (vm bs ds T H) = run p' (vm bs' ds T' H')"
  by (simp add: vm_def run_feed healthy_def)

lemmas vm_simps = on_read [THEN vm_lift] on_write [THEN vm_lift] on_sys [THEN vm_lift] on_ask [THEN vm_lift]
  on_effect [THEN vm_lift] on_keystream [THEN vm_lift] on_check_status [THEN vm_lift] on_tryq
  on_tkey_new [THEN vm_lift] on_get_chacha20_cipher [THEN vm_lift]
lemma vm_read_dom0:
  "length xs = n \<Longrightarrow> run (bnd (read_exact Dom0 n) f) (vm bs (xs @ ys) T H) =
     run (f (Inr xs)) (vm bs ys T (H @ [In Dom0 xs]))"
  "run (bnd (read_exact Dom0 (Suc 0)) f) (vm bs (b # ys) T H) =
     run (f (Inr [b])) (vm bs ys T (H @ [In Dom0 [b]]))"
  by (simp_all add: run_read_ok) (rule arg_cong [of _ _ "run _"]; simp add: vm_def feed_def on_def start_def fun_eq_iff)+

subsection \<open>qubes\_enroll\<close>

text \<open>Pairs of entries that \<open>pass_enroll\<close> of qubes_enroll refuses.\<close>

definition refused_vm :: "bytes \<times> bytes \<Rightarrow> bool" where
  "refused_vm e \<longleftrightarrow> fst e \<noteq> snd e \<or> length (fst e) < 8 \<or> 255 < length (fst e)"

definition vm_accepted :: "crypto \<Rightarrow> config \<Rightarrow> cipher \<Rightarrow> bytes \<Rightarrow> event list" where
  "vm_accepted cr cfg c p = [Got PromptPassword (ABytes p), Got PromptPassword (ABytes p),
     Did (Keystream (cpos c) 32), Out Device (sealed_hash cr cfg c (newline p)),
     Did (Zeroize ''hashed_pass'')]"

lemma vm_pass_enroll:
  assumes cr: "crypto_ok cr" and p: "usable cr cfg (newline p)" "utf8_valid p" "length p \<le> 255"
  shows "\<forall>e \<in> set bad. refused_vm e \<and> typed e \<Longrightarrow>
    run (bnd (qubes_pass_enroll cr cfg (length bad + Suc fuel) c) f)
      (vm (0x21 # ys) ds (concat (map entry_answers bad) @ [ABytes p, ABytes p] @ T) H) =
    run (f (Inr (advance 32 c))) (vm ys ds T
      (H @ concat (map entry_events bad) @ vm_accepted cr cfg c p @ [In Device [0x21]]))"
proof (induction bad arbitrary: H)
  case Nil
  obtain h where h: "hash_password cr cfg p = Some h"
    using p(1) by (auto simp: usable_def newline_def)
  have len: "length h = 32" using length_pass_hash [OF cr p(1)] hash_newline [OF h] by simp
  have "\<not> length p < 8" using p(1) by (simp add: usable_def newline_def)
  with h len hash_newline [OF h] p(2,3) show ?case
    by (simp add: vm_simps Let_def crypt_def vm_accepted_def sealed_hash_def advance_def
        client_message_try_from_def)
next
  case (Cons e bad)
  obtain a b where e: "e = (a, b)" by (cases e)
  from Cons.prems have ab: "refused_vm (a, b)" "typed (a, b)" by (simp_all add: e)
  with Cons show ?case
    by (cases "a = b") (auto simp: e refused_vm_def typed_def vm_simps Let_def)
qed

declare qubes_pass_enroll.simps(2) [simp del]

text \<open>The TPM's answer on its way through the VM.\<close>

definition gate_in :: "gate \<Rightarrow> event list" where
  "gate_in g = (case g of Signed sig \<Rightarrow> [In Dom0 [0x97], In Dom0 sig] | Touched \<Rightarrow> [In Dom0 [0x90]])"

lemma vm_forward:
  assumes "gate_opens cr k chal g" "kill \<longrightarrow> trusted g"
  shows "run (bnd (forward_signature kill) f) (vm bs (gate_msg g @ ds) T H) =
    run (f (Inr ())) (vm bs ds T (H @ gate_in g @ gate_out g))"
  using assms
  by (cases g) (auto simp: forward_signature_def vm_read_dom0 vm_simps host_message_try_from_def
      gate_in_def gate_out_def gate_opens_def trusted_def)

lemma vm_verdict:
  "run (bnd expect_good_sig f) (vm (gate_reply g # bs) ds T H) =
    run (f (Inr ())) (vm bs ds T (H @ [In Device [gate_reply g]]))"
  by (cases g) (simp_all add: expect_good_sig_def vm_simps client_message_try_from_def)

definition handover_events :: "cipher \<Rightarrow> bytes \<Rightarrow> bytes \<Rightarrow> event list" where
  "handover_events c cur key = [Got PromptPassword (ABytes cur), Out Dom0 [of_nat (length cur)],
     Out Dom0 cur, Did (Keystream (cpos c) 32), Out Dom0 key, Got (Flush Dom0) AOk]"

definition slot_byte :: "byte option \<Rightarrow> byte" where
  "slot_byte slot = (case slot of None \<Rightarrow> 0x91 | Some n \<Rightarrow> n)"

lemma vm_handover:
  assumes "length sealed = 32" "utf8_valid cur" "fst (crypt c sealed) = key"
  shows "run (bnd (send_enrollment c sealed) f) (vm bs (0x99 # ds) (ABytes cur # AOk # T) H) =
    run (f (Inr ())) (vm bs ds T (H @ handover_events c cur key @ [In Dom0 [0x99]]))"
  using assms
  by (simp add: send_enrollment_def vm_read_dom0 vm_simps host_message_try_from_def
      handover_events_def Let_def crypt_def)

lemma vm_send_slot:
  "run (bnd (send_slot slot) f) (vm bs ds (AOk # T) H) =
    run (f (Inr ())) (vm bs ds T (H @ [Out Dom0 [slot_byte slot], Got (Flush Dom0) AOk]))"
  by (simp add: send_slot_def vm_simps slot_byte_def)

text \<open>The whole program, for entries that end with the new and the current passphrase.\<close>

definition vm_entries_ok :: "setting \<Rightarrow> entries \<Rightarrow> bool" where
  "vm_entries_ok S E \<longleftrightarrow> (\<forall>e \<in> set (n_bad E). refused_vm e \<and> typed e) \<and> utf8_valid (n_pass E) \<and>
     utf8_valid (n_cur E) \<and> usable (s_cr S) (s_cfg S) (newline (n_pass E)) \<and>
     length (n_pass E) \<le> 255 \<and> length (n_cur E) \<le> 255"

definition vm_tape :: "setting \<Rightarrow> entries \<Rightarrow> ans list" where
  "vm_tape S E = replicate 7 AOk @ poll_answers (expected_bytes (total_frames (s_bin S))) @
     [AOk, AOk, AOk, ABytes (s_seed S), AOk] @ concat (map entry_answers (n_bad E)) @
     [ABytes (n_pass E), ABytes (n_pass E), ABytes (n_cur E), AOk, AOk, ACode (Some 0), AOk]"

text \<open>The trace, cut where the VM waits for the TKey or for dom0.\<close>

definition vm_pieces :: "setting \<Rightarrow> entries \<Rightarrow> byte option \<Rightarrow> event list list" where
  "vm_pieces S E slot = (let c = session_stream S; p = newline (n_pass E); g = s_gate S in
    [tty_events @ request_events (s_bin S),
     [In Device (b_resp (s_boot S))] @ map (\<lambda>c. Out Device (load_frame c)) (chunks 127 (s_bin S)) @
       poll_events (expected_bytes (total_frames (s_bin S))),
     [In Device (b_acks (s_boot S)), In Device (b_digest (s_boot S)), In Device (d_nonce (s_dev S)),
      Got (Child (Spawn ''/usr/bin/qrexec-client-vm'' [''dom0'', ''qubes.TPMProxy''])) AOk,
      Got (Child TakeStdin) AOk, Got (Child TakeStdout) AOk,
      In Device (d_enc_nonce (s_dev S)), Got (GetRandom 32) (ABytes (s_seed S)),
      Out Device (h_pub (s_cr S) (s_seed S)), In Device (d_pub (s_cr S) (s_dev S)),
      Out Dom0 (ticket_of (s_cr S) (s_dev S) (s_seed S)), Got (Flush Dom0) AOk],
     gate_in g @ gate_out g,
     [In Device [gate_reply g], In Device [0x22]] @ concat (map entry_events (n_bad E)) @
       vm_accepted (s_cr S) (s_cfg S) c (n_pass E),
     [In Device [0x21], In Device (sealed_key (s_cr S) (s_cfg S) (cdi_of S) c p)] @
       handover_events (advance 32 c) (n_cur E) (derived_key (s_cr S) (s_cfg S) (cdi_of S) p),
     [In Dom0 [0x99], Out Dom0 [slot_byte slot], Got (Flush Dom0) AOk,
      Got (Child ChildWait) (ACode (Some 0)), Out Device [0x99], Got ReadLine AOk]])"

definition vm_trace :: "setting \<Rightarrow> entries \<Rightarrow> byte option \<Rightarrow> event list" where
  "vm_trace S E slot = concat (vm_pieces S E slot)"

lemma on_qubes_main:
  assumes S: "setting_ok S" and E: "vm_entries_ok S E" and bin: "1000 \<le> length (s_bin S)"
    and slot: "slot_arg argv = Inr slot" "slot \<noteq> None \<longrightarrow> trusted (s_gate S)"
  shows "run (qubes_main (s_cr S) (s_cfg S) (s_bin S) (length (n_bad E) + Suc fuel) argv)
      (vm (boot_bytes (s_boot S) @ hello (s_cr S) (s_dev S) @ gate_reply (s_gate S) #
          tries_in (s_cr S) (s_cfg S) (cdi_of S) (session_stream S) (one_try E))
        (gate_msg (s_gate S) @ [0x99]) (vm_tape S E) []) =
    (Ret (Inr Success), vm [] [] [] (vm_trace S E slot))"
proof -
  note cr = setting_okD(1) [OF S]
  let ?p = "newline (n_pass E)" and ?c = "session_stream S"
  have E': "usable (s_cr S) (s_cfg S) ?p" "utf8_valid (n_pass E)" "length (n_pass E) \<le> 255" "utf8_valid (n_cur E)"
    "\<forall>e \<in> set (n_bad E). refused_vm e \<and> typed e" using E by (simp_all add: vm_entries_ok_def)
  have key: "length (derived_key (s_cr S) (s_cfg S) (cdi_of S) ?p) = 32"
    using crypto_okD(3) [OF cr] by (simp add: derived_key_def)
  then have sealed: "length (sealed_key (s_cr S) (s_cfg S) (cdi_of S) ?c ?p) = 32"
    "fst (crypt (advance 32 ?c) (sealed_key (s_cr S) (s_cfg S) (cdi_of S) ?c ?p)) =
      derived_key (s_cr S) (s_cfg S) (cdi_of S) ?p"
    by (simp_all add: sealed_key_def session.inverse)
  have len: "length (d_nonce (s_dev S)) = 32" "length (d_enc_nonce (s_dev S)) = 12"
    "length (d_pub (s_cr S) (s_dev S)) = 32"
    using setting_okD(2) [OF S] crypto_okD(1) [OF cr] by (simp_all add: secrets_ok_def d_pub_def)
  note load = on_load_app [OF setting_okD(4) [OF S], THEN vm_lift]
  note pass = vm_pass_enroll [OF cr E'(1,2,3,5), simplified]
  note hand = vm_handover [OF sealed(1) E'(4) sealed(2), where ds = "[]", simplified]
  show ?thesis
    using bin slot(2)
    by (simp add: qubes_main_def qubes_run_def slot(1) vm_tape_def boot_bytes_def hello_def one_try_def
        expect_ready_def vm_simps load len setting_okD(3) [OF S] session_streams(1) [OF S]
        vm_forward [OF setting_okD(6) [OF S]] vm_verdict pass sealed(1) hand vm_send_slot
        client_message_try_from_def vm_trace_def vm_pieces_def Let_def load_events_def ticket_of_def h_pub_def)
qed

subsection \<open>dom0\<close>

definition dom0_reports :: "(io_error \<Rightarrow> string) \<Rightarrow> (string \<Rightarrow> string) \<Rightarrow> gate \<Rightarrow> event list" where
  "dom0_reports io_fmt lib_fmt g = (case g of
     Signed sig \<Rightarrow> [Out Host [0x97], Out Host sig, Got (Flush Host) AOk]
   | Touched \<Rightarrow> [Got (LogWrite ''tpm refused to unseal'') AOk,
       Got (LogWrite (box_error_fmt io_fmt lib_fmt (BoxLib ''tss_esapi''))) AOk,
       Got (LogWrite ''moving on this is only meant to happen if you're updating.'') AOk,
       Out Host [0x90], Got (Flush Host) AOk])"

definition dom0_adds :: "config \<Rightarrow> bytes \<Rightarrow> bytes \<Rightarrow> event list" where
  "dom0_adds cfg cur key = [In Host [of_nat (length cur)], In Host cur,
     Got (Child (Spawn ''/usr/sbin/cryptsetup'' (luks_add_key_args cfg (length cur)))) AOk,
     Got (Child TakeStdin) AOk, Got (Child (ChildWrite cur)) AOk, In Host key,
     Got (Child (ChildWrite key)) AOk, Got (Child ChildWait) (ACode (Some 0)),
     Out Host [0x99], Got (Flush Host) AOk]"

definition dom0_kills :: "config \<Rightarrow> bytes \<Rightarrow> byte option \<Rightarrow> event list" where
  "dom0_kills cfg key slot = In Host [slot_byte slot] # (case slot of None \<Rightarrow> []
   | Some n \<Rightarrow> [Got (Child (Spawn ''/usr/sbin/cryptsetup'' (luks_kill_slot_args cfg n))) AOk,
       Got (Child TakeStdin) AOk, Got (Child (ChildWrite key)) AOk, Got (Child ChildWait) (ACode (Some 0)),
       Got (LogCreate verify_log) AOk,
       Got (LogWrite (''successfully killed slot '' @ to_string (unat n) @ ''!!'')) AOk]) @
     [Got (LogWrite ''success!'') AOk]"

definition dom0_tape :: "tpm_answers \<Rightarrow> gate \<Rightarrow> byte option \<Rightarrow> ans list" where
  "dom0_tape t g slot = [AOk] @ tpm_tape t g @ (if trusted g then [AOk] else [AOk, AOk, AOk, AOk]) @
     [AOk, AOk, AOk, AOk, ACode (Some 0), AOk] @
     (case slot of None \<Rightarrow> [] | Some n \<Rightarrow> [AOk, AOk, AOk, ACode (Some 0), AOk, AOk]) @ [AOk]"

definition dom0_events :: "(io_error \<Rightarrow> string) \<Rightarrow> (string \<Rightarrow> string) \<Rightarrow> config \<Rightarrow> bytes \<Rightarrow> tpm_answers \<Rightarrow>
    gate \<Rightarrow> bytes \<Rightarrow> bytes \<Rightarrow> byte option \<Rightarrow> event list list" where
  "dom0_events io_fmt lib_fmt cfg ticket t g cur key slot =
    [[In Host ticket, Got (LogCreate verify_log) AOk] @ tpm_events ticket t g @ dom0_reports io_fmt lib_fmt g,
     dom0_adds cfg cur key, dom0_kills cfg key slot]"

lemma on_dom0_main:
  assumes "length ticket = 108" "tpm_gives t g" "length cur \<le> 255" "utf8_valid cur" "length key = 32"
    "slot \<noteq> Some 0x91"
  shows "run (dom0_main io_fmt lib_fmt cfg) (on Host (ticket @ enrollment_frame cur key @ [slot_byte slot])
      (dom0_tape t g slot) []) =
    (Ret (Inr Success), on Host [] [] (concat (dom0_events io_fmt lib_fmt cfg ticket t g cur key slot)))"
proof -
  have n: "unat (of_nat (length cur) :: byte) = length cur"
    using assms(3) by (simp add: unsigned_of_nat take_bit_nat_eq_self)
  note d = dom0_main_def dom0_enroll_def dom0_kill_slot_def dom0_tape_def dom0_events_def enrollment_frame_def
    dom0_reports_def dom0_adds_def dom0_kills_def slot_byte_def verify_answer_def trusted_def
  show ?thesis
    using assms
    by (cases g; cases slot) (simp_all add: d n on_simps)
qed

lemma slot_arg_below: "slot_arg argv = Inr (Some n) \<Longrightarrow> n < 32"
  by (auto simp: slot_arg_def Let_def not_le split: if_splits option.splits)

subsection \<open>The session\<close>

text \<open>The setting with what dom0 adds to it: its own configuration and message texts.\<close>

record dom0_side =
  v_cfg :: config
  v_io :: "io_error \<Rightarrow> string"
  v_lib :: "string \<Rightarrow> string"

definition qubes_of :: "setting \<Rightarrow> dom0_side \<Rightarrow> unit proc \<Rightarrow> nat \<Rightarrow> string list \<Rightarrow> byte option \<Rightarrow> entries \<Rightarrow>
    (box_error + exit_code) net" where
  "qubes_of S V fw fuel argv slot E = \<lparr>prc = (\<lambda>p. case p of
       Device \<Rightarrow> tkey fw (s_cr S) (s_key S)
     | Host \<Rightarrow> qubes_main (s_cr S) (s_cfg S) (s_bin S) (length (n_bad E) + Suc fuel) argv
     | Dom0 \<Rightarrow> dom0_main (v_io V) (v_lib V) (v_cfg V)),
     loc = (\<lambda>p. start (\<lambda>_. []) (case p of
       Device \<Rightarrow> tkey_tape S (one_try E) | Host \<Rightarrow> vm_tape S E | Dom0 \<Rightarrow> dom0_tape (s_tpm S) (s_gate S) slot))\<rparr>"

abbreviation new_key :: "setting \<Rightarrow> entries \<Rightarrow> bytes" where
  "new_key S E \<equiv> derived_key (s_cr S) (s_cfg S) (cdi_of S) (newline (n_pass E))"

definition dom0_pieces :: "setting \<Rightarrow> dom0_side \<Rightarrow> entries \<Rightarrow> byte option \<Rightarrow> event list list" where
  "dom0_pieces S V E slot = dom0_events (v_io V) (v_lib V) (v_cfg V)
     (ticket_of (s_cr S) (s_dev S) (s_seed S)) (s_tpm S) (s_gate S) (n_cur E) (new_key S E) slot"

definition tkey_pieces :: "setting \<Rightarrow> event list \<Rightarrow> event list \<Rightarrow> entries \<Rightarrow> event list list" where
  "tkey_pieces S e1 e2 E = [e1, e2 @ hello_events (s_cr S) (s_dev S),
     [In Host (h_pub (s_cr S) (s_seed S))] @ dev_gate_events (s_gate S) @ [Out Host [0x22]],
     answered (s_cr S) (s_cfg S) (cdi_of S) (session_stream S) (newline (n_pass E)),
     judged (Some 0) @ epilogue_events]"

text \<open>Who speaks when.\<close>

definition qubes_script :: "setting \<Rightarrow> dom0_side \<Rightarrow> event list \<Rightarrow> event list \<Rightarrow> entries \<Rightarrow> byte option \<Rightarrow>
    (port \<times> event list) list" where
  "qubes_script S V e1 e2 E slot =
    (let v = vm_pieces S E slot; d = tkey_pieces S e1 e2 E; z = dom0_pieces S V E slot in
     [(Host, v ! 0), (Device, d ! 0), (Host, v ! 1), (Device, d ! 1), (Host, v ! 2), (Dom0, z ! 0),
      (Host, v ! 3), (Device, d ! 2), (Host, v ! 4), (Device, d ! 3), (Host, v ! 5), (Dom0, z ! 1),
      (Host, v ! 6), (Dom0, z ! 2), (Device, d ! 4)])"

lemma script_spoken:
  assumes "setting_ok S" "vm_entries_ok S E"
  shows "spoken Host (qubes_script S V e1 e2 E slot) = vm_trace S E slot"
    "spoken Dom0 (qubes_script S V e1 e2 E slot) = concat (dom0_pieces S V E slot)"
    "spoken Device (qubes_script S V e1 e2 E slot) = tkey_trace S (e1 @ e2) (one_try E) Success"
proof -
  show "spoken Host (qubes_script S V e1 e2 E slot) = vm_trace S E slot"
    by (simp add: qubes_script_def vm_trace_def vm_pieces_def Let_def)
  show "spoken Dom0 (qubes_script S V e1 e2 E slot) = concat (dom0_pieces S V E slot)"
    by (simp add: qubes_script_def dom0_pieces_def dom0_events_def Let_def)
  show "spoken Device (qubes_script S V e1 e2 E slot) = tkey_trace S (e1 @ e2) (one_try E) Success"
    using dev_attempt_pieces [OF setting_okD(1) [OF assms(1)], of "s_cfg S" "newline (n_pass E)"
        "session_stream S" "cdi_of S" "Some 0"] assms(2)
    by (simp add: qubes_script_def tkey_pieces_def tkey_trace_def one_try_def end_events_def
        vm_entries_ok_def Let_def)
qed

lemma quiet_gate [simp]:
  "got q (gate_in g) = (if q = Dom0 then gate_msg g else [])" "sent q (gate_in g) = []"
  "got q (gate_out g) = []" "sent q (gate_out g) = (if q = Device then gate_msg g else [])"
  "got q (dom0_reports io_fmt lib_fmt g) = []"
  "sent q (dom0_reports io_fmt lib_fmt g) = (if q = Host then gate_msg g else [])"
  "got q (dev_gate_events g) = (if q = Host then gate_msg g else [])"
  "sent q (dev_gate_events g) = (if q = Host then [gate_reply g] else [])"
  by (cases g; simp add: gate_in_def gate_out_def dom0_reports_def)+

lemma only_with_more [simp]:
  "only_with Device (request_events bin)" "only_with Host (hello_events cr d)"
  "only_with p (tpm_events ticket t g)" "only_with Host (dev_gate_events g)"
  "only_with Host (dom0_reports io_fmt lib_fmt g)"
  by (simp_all add: request_events_def hello_events_def tpm_events_def) (simp_all add: only_with_def)

lemma sent_request_vm [simp]: "p \<noteq> Device \<Longrightarrow> sent p (request_events bin) = []"
  by (simp add: request_events_def)

text \<open>Unread bytes when everyone only talks with the VM.\<close>

definition hub :: "bytes \<Rightarrow> bytes \<Rightarrow> bytes \<Rightarrow> bytes \<Rightarrow> port \<Rightarrow> port \<Rightarrow> bytes" where
  "hub dh vd zh hz r p = (case r of
     Device \<Rightarrow> if p = Host then dh else []
   | Host \<Rightarrow> (case p of Device \<Rightarrow> vd | Dom0 \<Rightarrow> hz | Host \<Rightarrow> [])
   | Dom0 \<Rightarrow> if p = Host then zh else [])"

definition not_self :: "event list \<Rightarrow> bool" where
  "not_self h \<longleftrightarrow> sent Host h = [] \<and> got Host h = []"

lemma scripted_device:
  assumes "only_with Host es"
  shows "scripted (hub dh vd zh hz) ((Device, es) # ps) \<longleftrightarrow>
     got Host es = dh \<and> scripted (hub [] (vd @ sent Host es) zh hz) ps"
proof -
  have s: "sent r es = (if r = Host then sent Host es else [])" "got r es = (if r = Host then got Host es else [])" for r
    using assms by (auto simp: only_with_def)
  have "(\<lambda>r p. (if r = Device then [] else hub dh vd zh hz r p) @ (if p = Device then sent r es else [])) =
      hub [] (vd @ sent Host es) zh hz"
    by (intro ext) (subst s, auto simp: hub_def split: port.splits)
  moreover have "(\<forall>p. got p es = hub dh vd zh hz Device p) \<longleftrightarrow> got Host es = dh"
    by (subst s) (auto simp: hub_def all_port)
  ultimately show ?thesis by simp
qed

lemma scripted_dom0:
  assumes "only_with Host es"
  shows "scripted (hub dh vd zh hz) ((Dom0, es) # ps) \<longleftrightarrow>
     got Host es = zh \<and> scripted (hub dh vd [] (hz @ sent Host es)) ps"
proof -
  have s: "sent r es = (if r = Host then sent Host es else [])" "got r es = (if r = Host then got Host es else [])" for r
    using assms by (auto simp: only_with_def)
  have "(\<lambda>r p. (if r = Dom0 then [] else hub dh vd zh hz r p) @ (if p = Dom0 then sent r es else [])) =
      hub dh vd [] (hz @ sent Host es)"
    by (intro ext) (subst s, auto simp: hub_def split: port.splits)
  moreover have "(\<forall>p. got p es = hub dh vd zh hz Dom0 p) \<longleftrightarrow> got Host es = zh"
    by (subst s) (auto simp: hub_def all_port)
  ultimately show ?thesis by simp
qed

lemma scripted_vm:
  assumes "not_self es"
  shows "scripted (hub dh vd zh hz) ((Host, es) # ps) \<longleftrightarrow> got Device es = vd \<and> got Dom0 es = hz \<and>
     scripted (hub (dh @ sent Device es) [] (zh @ sent Dom0 es) []) ps"
proof -
  have "(\<lambda>r p. (if r = Host then [] else hub dh vd zh hz r p) @ (if p = Host then sent r es else [])) =
      hub (dh @ sent Device es) [] (zh @ sent Dom0 es) []"
    using assms by (intro ext) (auto simp: hub_def not_self_def split: port.splits)
  moreover have "(\<forall>p. got p es = hub dh vd zh hz Host p) \<longleftrightarrow> got Device es = vd \<and> got Dom0 es = hz"
    using assms by (auto simp: hub_def all_port not_self_def)
  ultimately show ?thesis by simp
qed

lemma qubes_scripted:
  assumes "firmware_boots fw (s_bin S) (s_boot S) e1 e2"
  shows "scripted (\<lambda>r p. []) (qubes_script S V e1 e2 E slot)"
proof -
  have "(\<lambda>r p. []) = hub [] [] [] []" by (intro ext) (simp add: hub_def split: port.split)
  moreover from assms have "got Host e1 = load_request (s_bin S)" "sent Host e1 = b_resp (s_boot S)"
    "got Host e2 = boot_frames (s_bin S)" "sent Host e2 = b_acks (s_boot S) @ b_digest (s_boot S)"
    "only_with Host e1" "only_with Host e2" by (simp_all add: firmware_boots_def)
  ultimately show ?thesis
    by (simp add: qubes_script_def vm_pieces_def tkey_pieces_def dom0_pieces_def dom0_events_def Let_def
      scripted_vm scripted_device scripted_dom0 not_self_def boot_frames_def hello_def vm_accepted_def
      answered_def handover_events_def dom0_adds_def dom0_kills_def judged_def verdict_byte_def
      epilogue_events_def del: scripted.simps(2) split: option.split)
qed

lemma vm_tries_ok: "vm_entries_ok S E \<Longrightarrow> tries_ok S (one_try E) Success"
  by (simp add: tries_ok_def one_try_def vm_entries_ok_def)

text \<open>The TKey cannot tell this from unlocking with the same passphrase.\<close>

lemma sent_vm:
  "sent Device (vm_trace S E slot) = sent Device (host_trace S (one_try E))"
  "sent Dom0 (vm_trace S E slot) = ticket_of (s_cr S) (s_dev S) (s_seed S) @
     enrollment_frame (n_cur E) (new_key S E) @ [slot_byte slot]"
  "sent Host (vm_trace S E slot) = []"
  by (simp_all add: vm_trace_def vm_pieces_def host_trace_def auth_events_def load_events_def one_try_def Let_def
      vm_accepted_def handover_events_def try_events_def ask_events_def open_events_def verdict_byte_def
      enrollment_frame_def)

lemma sent_dom0:
  "sent Host (concat (dom0_pieces S V E slot)) = gate_msg (s_gate S) @ [0x99]"
  "only_with Host (concat (dom0_pieces S V E slot))"
  by (cases slot; simp add: dom0_pieces_def dom0_events_def dom0_adds_def dom0_kills_def)+

lemma feed_all_vm:
  "feed_all ((\<lambda>_. [])(Device := bs, Dom0 := ds)) (start (\<lambda>_. []) T) = vm bs ds T []"
  by (simp add: vm_def feed_def on_def feed_all_def start_def fun_eq_iff)

lemma qubes_ends:
  assumes S: "setting_ok S" and fw: "firmware_boots fw (s_bin S) (s_boot S) e1 e2" and E: "vm_entries_ok S E"
    and bin: "1000 \<le> length (s_bin S)"
    and slot: "slot_arg argv = Inr slot" "slot \<noteq> None \<longrightarrow> trusted (s_gate S)"
    and fin: "sched_run net_step sched (qubes_of S V fw fuel argv slot E) = Some n" "final net_step n"
  shows "prc n Host = Ret (Inr Success) \<and> prc n Dom0 = Ret (Inr Success) \<and> prc n Device = Halt DeviceDone \<and>
    trace (loc n Dom0) = concat (dom0_pieces S V E slot)"
proof -
  let ?n0 = "qubes_of S V fw fuel argv slot E"
  define H where "H q = spoken q (qubes_script S V e1 e2 E slot)" for q
  have H: "H Host = vm_trace S E slot" "H Dom0 = concat (dom0_pieces S V E slot)"
    "H Device = tkey_trace S (e1 @ e2) (one_try E) Success"
    unfolding H_def by (rule script_spoken [OF S E])+
  have oD: "only_with Host (H Device)"
    unfolding H by (rule only_with_device) (use fw in \<open>simp add: firmware_boots_def\<close>)
  have oZ: "only_with Host (H Dom0)" unfolding H by (rule sent_dom0)
  have sD: "sent Host (H Device) = boot_bytes (s_boot S) @ hello (s_cr S) (s_dev S) @ gate_reply (s_gate S) #
      tries_in (s_cr S) (s_cfg S) (cdi_of S) (session_stream S) (one_try E)"
    using fw vm_tries_ok [OF E] unfolding H
    by (simp add: tkey_trace_def firmware_boots_def boot_bytes_def tries_ok_def
        sent_dev_loop [OF setting_okD(1) [OF S]])
  have sZ: "sent Host (H Dom0) = gate_msg (s_gate S) @ [0x99]" unfolding H by (rule sent_dom0)
  have toH: "lines_of H Host = (\<lambda>_. [])(Device := sent Host (H Device), Dom0 := sent Host (H Dom0))"
    by (simp add: lines_of_def fun_eq_iff all_port H(1) sent_vm)
  have toD: "lines_of H Device = (\<lambda>_. [])(Host := sent Device (host_trace S (one_try E)))"
    using oD oZ by (simp add: lines_of_def fun_eq_iff only_with_def all_port H(1) sent_vm)
  have toZ: "lines_of H Dom0 = (\<lambda>_. [])(Host := ticket_of (s_cr S) (s_dev S) (s_seed S) @
     enrollment_frame (n_cur E) (new_key S E) @ [slot_byte slot])"
    using oD oZ by (simp add: lines_of_def fun_eq_iff only_with_def all_port H(1) sent_vm)
  have len: "length (d_nonce (s_dev S)) = 32" "length (d_enc_nonce (s_dev S)) = 12"
    using setting_okD(2) [OF S] by (simp_all add: secrets_ok_def)
  note cr = crypto_okD [OF setting_okD(1) [OF S]]
  have ticket: "length (ticket_of (s_cr S) (s_dev S) (s_seed S)) = 108"
    using len cr(1) by (simp add: ticket_of_def challange_eq h_pub_def d_pub_def)
  have cur: "length (n_cur E) \<le> 255" "utf8_valid (n_cur E)" using E by (simp_all add: vm_entries_ok_def)
  have key: "length (new_key S E) = 32" using cr(3) by (simp add: derived_key_def)
  have sl: "slot \<noteq> Some 0x91" using slot_arg_below [of argv "0x91"] slot(1) by auto
  note side = ticket setting_okD(5) [OF S] cur key sl
  have A: "alone ?n0 (lines_of H) Host = (Ret (Inr Success), vm [] [] [] (H Host))"
    using on_qubes_main [OF S E bin slot, where fuel = fuel]
    unfolding alone_def toH qubes_of_def sD sZ H(1) by (simp add: feed_all_vm)
  have B: "alone ?n0 (lines_of H) Device = (Halt DeviceDone, on Host [] [] (H Device))"
    using tkey_alone [OF S fw vm_tries_ok [OF E]]
    by (simp add: alone_def toD qubes_of_def H(3) feed_all_on)
  have C: "alone ?n0 (lines_of H) Dom0 = (Ret (Inr Success), on Host [] [] (H Dom0))"
    unfolding H(2) dom0_pieces_def
    using on_dom0_main [OF side, where io_fmt = "v_io V" and lib_fmt = "v_lib V" and cfg = "v_cfg V"]
    by (simp add: alone_def toZ qubes_of_def feed_all_on)
  let ?Pr = "\<lambda>q. if q = Device then Halt DeviceDone else Ret (Inr Success)"
  let ?S = "\<lambda>q. if q = Host then vm [] [] [] (H Host) else on Host [] [] (H q)"
  have "fresh ?n0" by (simp add: qubes_of_def fresh_def net_ok_def)
  moreover have "alone ?n0 (lines_of H) q = (?Pr q, ?S q)" "trace (?S q) = H q" for q
    by (cases q; simp add: A B C)+
  ultimately have "(prc n q, loc n q) = (?Pr q, ?S q)" for q
    by (rule script_session [OF _ _ _ H_def qubes_scripted [OF fw] fin])
  from this [of Host] this [of Dom0] this [of Device] show ?thesis by (simp add: H)
qed

subsection \<open>Property\<close>

text \<open>The commands a program has started, with their arguments.\<close>

definition commands :: "event list \<Rightarrow> string list list" where
  "commands h = concat (map (\<lambda>e. case e of
     Got a x \<Rightarrow> (case a of Child c \<Rightarrow> (case c of Spawn p as \<Rightarrow> [as] | _ \<Rightarrow> []) | _ \<Rightarrow> []) | _ \<Rightarrow> []) h)"

lemma dom0_summary:
  "commands (concat (dom0_pieces S V E slot)) = luks_add_key_args (v_cfg V) (length (n_cur E)) #
     (case slot of None \<Rightarrow> [] | Some k \<Rightarrow> [luks_kill_slot_args (v_cfg V) k])"
  "disk_keys (concat (dom0_pieces S V E slot)) = [n_cur E, new_key S E] @
     (case slot of None \<Rightarrow> [] | Some k \<Rightarrow> [new_key S E])"
  by (cases slot; cases "s_gate S"; simp add: dom0_pieces_def dom0_events_def dom0_adds_def dom0_kills_def
      tpm_events_def dom0_reports_def commands_def disk_keys_def)+

text \<open>
  Property C9. Enrolling on Qubes ends the same way in every schedule. Take a firmware that
  boots the app, a TPM that signs in dom0 (or, if no slot is to be killed, refuses while the
  user touches the key), any number of refused pairs of entries, a new passphrase and a current
  one of at most 255 bytes. Every interleaving of the TKey, qubes_enroll in the VM and verify
  in dom0 can be completed, within a fixed number of steps, to one final state, in which all
  three have succeeded. There dom0 has run luksAddKey with the length of the current
  passphrase, given it exactly that passphrase and the BLAKE2s of the CDI and the Argon2 hash of
  the new one, and then, if a slot was named, luksKillSlot of that slot with the new key.
\<close>

theorem qubes_session_every_schedule:
  assumes "setting_ok S" "firmware_boots fw (s_bin S) (s_boot S) e1 e2" "vm_entries_ok S E"
    "1000 \<le> length (s_bin S)" "slot_arg argv = Inr slot" "slot \<noteq> None \<longrightarrow> trusted (s_gate S)"
  shows "\<exists>n steps. final net_step n \<and>
    (\<forall>sched m. sched_run net_step sched (qubes_of S V fw fuel argv slot E) = Some m \<longrightarrow>
       length sched \<le> steps \<and> (\<exists>rest. sched_run net_step rest m = Some n)) \<and>
    prc n Host = Ret (Inr Success) \<and> prc n Dom0 = Ret (Inr Success) \<and> prc n Device = Halt DeviceDone \<and>
    commands (trace (loc n Dom0)) = luks_add_key_args (v_cfg V) (length (n_cur E)) #
      (case slot of None \<Rightarrow> [] | Some k \<Rightarrow> [luks_kill_slot_args (v_cfg V) k]) \<and>
    disk_keys (trace (loc n Dom0)) = [n_cur E, new_key S E] @
      (case slot of None \<Rightarrow> [] | Some k \<Rightarrow> [new_key S E])"
proof -
  let ?n0 = "qubes_of S V fw fuel argv slot E"
  have "net_ok ?n0" by (simp add: qubes_of_def net_ok_def)
  from net.one_end [OF this] obtain n steps where fin: "final net_step n"
    and all: "\<And>sched m. sched_run net_step sched ?n0 = Some m \<Longrightarrow> length sched \<le> steps \<and>
      (\<exists>rest. sched_run net_step rest m = Some n)" by blast
  from all [of "[]" ?n0] obtain rest where "sched_run net_step rest ?n0 = Some n" by auto
  from qubes_ends [OF assms this fin] fin all show ?thesis
    by (intro exI [of _ n] exI [of _ steps]) (simp add: dom0_summary)
qed

text \<open>Killing slot 3, after a pair of entries that differ.\<close>

definition demo_dom0_side :: dom0_side where
  "demo_dom0_side = \<lparr>v_cfg = demo_disk, v_io = \<lambda>_. [], v_lib = id\<rparr>"

lemma demo_vm_entries: "vm_entries_ok demo_enrolling demo_entries"
  using demo_enrolling_ok(3)
  by (auto simp: vm_entries_ok_def entries_ok_def refused_vm_def refused_def demo_entries_def)

theorem qubes_session_every_schedule_witness:
  "\<exists>n :: (box_error + exit_code) net. final net_step n \<and> prc n Dom0 = Ret (Inr Success) \<and>
     map (\<lambda>as. as ! 0) (commands (trace (loc n Dom0))) = [''luksAddKey'', ''luksKillSlot'']"
proof -
  have arg: "slot_arg [''qubes_enroll'', ''--kill-slot'', ''3''] = Inr (Some 3)" by code_simp
  have "trusted (s_gate demo_enrolling)" by (simp add: demo_enrolling_def demo_setting_def trusted_def)
  then have "Some (3 :: byte) \<noteq> None \<longrightarrow> trusted (s_gate demo_enrolling)" by simp
  from qubes_session_every_schedule [OF demo_enrolling_ok(1) demo_firmware_boots demo_vm_entries
      demo_enrolling_ok(2) arg this, of demo_dom0_side 0]
  show ?thesis by (auto simp: luks_add_key_args_def luks_kill_slot_args_def)
qed

end
