(* ===== verification/Peace.thy ===== *)
theory Peace
  imports Network
begin

text \<open>
  When two programs of a network can end up waiting for each other. \<open>peaceful\<close> explores what
  the TKey and the host can do next to each other, for every answer their libraries and users
  can give; it fails exactly where both wait for bytes that are not in flight. The order in
  which it explores them does not matter, so if it succeeds no schedule of the network ends in
  a deadlock (\<open>peaceful_sound\<close>).
\<close>


subsection \<open>Waiting for each other\<close>

fun waits_for :: "port \<Rightarrow> 'a proc \<Rightarrow> bool" where
  "waits_for q (Read p n k) = (p = q)"
| "waits_for q _ = False"

definition deadlock :: "'a net \<Rightarrow> bool" where
  "deadlock n \<longleftrightarrow> final net_step n \<and> waits_for Host (prc n Device) \<and> waits_for Device (prc n Host)"

text \<open>
  The TKey acts as long as it can, then the host; \<open>i\<close> is on its way to the TKey, \<open>j\<close> to the
  host. A write of the host may fail.
\<close>

function peaceful :: "'a proc \<Rightarrow> 'a proc \<Rightarrow> bytes \<Rightarrow> bytes \<Rightarrow> bool" where
  "peaceful (Ret v) H i j = True"
| "peaceful (Halt h) H i j = True"
| "peaceful (Write q bs k) H i j = (q = Host \<and> peaceful (k True) H i (j @ bs))"
| "peaceful (Call a k) H i j = (\<forall>x. ans_ok a x \<longrightarrow> peaceful (k x) H i j)"
| "peaceful (Do a k) H i j = peaceful k H i j"
| "peaceful (Read q n k) H i j = (q = Host \<and>
    (if n \<le> length i then peaceful (k (Some (take n i))) H (drop n i) j
     else (case H of
       Ret v \<Rightarrow> True
     | Halt h \<Rightarrow> True
     | Write p bs g \<Rightarrow> p = Device \<and> peaceful (Read q n k) (g True) (i @ bs) j \<and>
         peaceful (Read q n k) (g False) i j
     | Read p m g \<Rightarrow> p = Device \<and> m \<le> length j \<and>
         peaceful (Read q n k) (g (Some (take m j))) i (drop m j)
     | Call a g \<Rightarrow> \<forall>x. ans_ok a x \<longrightarrow> peaceful (Read q n k) (g x) i j
     | Do a g \<Rightarrow> peaceful (Read q n k) g i j)))"
  by pat_completeness auto
termination
  by (relation "inv_image (below <*lex*> below) (\<lambda>(D, H, i, j). (D, H))")
     (auto intro: wf_inv_image wf_lex_prod wf_below below.intros)

declare peaceful.simps(3-6) [simp del]

text \<open>Whatever the device is about to do, the host may go first.\<close>

lemma peaceful_host:
  "m \<le> length j \<Longrightarrow> peaceful D (Read Device m g) i j = peaceful D (g (Some (take m j))) i (drop m j)"
  "peaceful D (Do a H) i j = peaceful D H i j"
  "\<exists>x. ans_ok a x \<Longrightarrow> peaceful D (Call a ga) i j \<longleftrightarrow> (\<forall>x. ans_ok a x \<longrightarrow> peaceful D (ga x) i j)"
  "peaceful D (Write Device bs gw) i j \<longleftrightarrow> peaceful D (gw True) (i @ bs) j \<and> peaceful D (gw False) i j"
  by (induction D arbitrary: i j) (auto simp: peaceful.simps)

subsection \<open>Soundness\<close>

definition meets :: "'a net \<Rightarrow> 'a proc \<Rightarrow> 'a proc \<Rightarrow> bytes \<Rightarrow> bytes \<Rightarrow> bool" where
  "meets n D H i j \<longleftrightarrow> net_ok n \<and> prc n Device = D \<and> prc n Host = H \<and>
     inbox (loc n Device) Host = i \<and> inbox (loc n Host) Device = j \<and> quota (loc n Device) = (\<lambda>_. None)"

text \<open>A program that waits for an answer, or has stopped, stays as it is.\<close>

lemma net_step_stuck:
  assumes "net_step q n = Some m" "pstep (prc n p, loc n p) = None" "\<forall>r. \<not> waits_for r (prc n p)"
  shows "prc m p = prc n p \<and> pstep (prc m p, loc m p) = None"
proof -
  have "q \<noteq> p" using assms(1,2) by (auto simp: net_step_def)
  then obtain out s' where "prc m p = prc n p" "loc m p = deliver q out ((loc n)(q := s')) p"
    using assms(1) by (auto simp: net_step_def split: option.splits)
  moreover from this \<open>q \<noteq> p\<close> have "loc m p = loc n p \<or> (\<exists>bs. loc m p = feed q bs (loc n p))"
    by (auto simp: deliver_apply split: option.splits)
  ultimately show ?thesis
    using assms(2,3) by (cases "prc n p") (auto split: option.splits list.splits if_splits)
qed

lemma stuck_stays:
  "sched_run net_step ps n = Some m \<Longrightarrow> pstep (prc n p, loc n p) = None \<Longrightarrow> \<forall>r. \<not> waits_for r (prc n p) \<Longrightarrow>
   prc m p = prc n p"
proof (induction ps arbitrary: n)
  case (Cons q ps)
  then obtain n1 where n1: "net_step q n = Some n1" "sched_run net_step ps n1 = Some m"
    by (auto split: option.splits)
  from net_step_stuck [OF n1(1) Cons.prems(2,3)] Cons.prems(3) Cons.IH [OF n1(2)] show ?case by metis
qed simp

lemma no_deadlock_stuck:
  assumes "sched_run net_step ps n = Some m" "pstep (prc n p, loc n p) = None"
    "\<forall>r. \<not> waits_for r (prc n p)" "p = Device \<or> p = Host"
  shows "\<not> deadlock m"
  using stuck_stays [OF assms(1-3)] assms(3,4) by (auto simp: deadlock_def)


fun onto :: "bytes \<Rightarrow> (port \<times> bytes) option \<Rightarrow> bytes" where
  "onto j None = j"
| "onto j (Some (q, bs)) = j @ bs"

lemma pstep_quota_None:
  "pstep (p, s) = Some (p', s', out) \<Longrightarrow> quota s = (\<lambda>_. None) \<Longrightarrow> quota s' = (\<lambda>_. None)"
  by (cases p) (auto split: option.splits list.splits if_splits)

lemma meets_step_device:
  assumes "meets n D H i j" "pstep (D, loc n Device) = Some (D', s', out)"
    "out = None \<or> (\<exists>bs. out = Some (Host, bs))"
  shows "\<exists>n'. net_step Device n = Some n' \<and> meets n' D' H (inbox s' Host) (onto j out)"
proof -
  let ?n' = "\<lparr>prc = (prc n)(Device := D'), loc = deliver Device out ((loc n)(Device := s'))\<rparr>"
  have st: "net_step Device n = Some ?n'" using assms(1,2) by (simp add: meets_def net_step_def)
  moreover have "net_ok ?n'" using net_step_ok [OF _ st] assms(1) by (simp add: meets_def)
  ultimately show ?thesis
    using assms pstep_quota_None [OF assms(2)] by (auto simp: meets_def)
qed

lemma meets_step_host:
  assumes "meets n D H i j" "pstep (H, loc n Host) = Some (H', s', out)"
    "out = None \<or> (\<exists>bs. out = Some (Device, bs))"
  shows "\<exists>n'. net_step Host n = Some n' \<and> meets n' D H' (onto i out) (inbox s' Device)"
proof -
  let ?n' = "\<lparr>prc = (prc n)(Host := H'), loc = deliver Host out ((loc n)(Host := s'))\<rparr>"
  have st: "net_step Host n = Some ?n'" using assms(1,2) by (simp add: meets_def net_step_def)
  moreover have "net_ok ?n'" using net_step_ok [OF _ st] assms(1) by (simp add: meets_def)
  ultimately show ?thesis
    using assms by (auto simp: meets_def)
qed

definition ends_well :: "'a net \<Rightarrow> bool" where
  "ends_well n \<longleftrightarrow> (\<forall>ps m. sched_run net_step ps n = Some m \<longrightarrow> final net_step m \<longrightarrow> \<not> deadlock m)"

lemma ends_well_step: "net_ok n \<Longrightarrow> net_step p n = Some n' \<Longrightarrow> ends_well n' \<Longrightarrow> ends_well n"
  unfolding ends_well_def using net.reorder by blast

lemma ends_well_stuck:
  "pstep (prc n p, loc n p) = None \<Longrightarrow> \<forall>r. \<not> waits_for r (prc n p) \<Longrightarrow> p = Device \<or> p = Host \<Longrightarrow> ends_well n"
  unfolding ends_well_def using no_deadlock_stuck by blast

lemma device_turn:
  assumes n: "meets n D H i j" and r: "\<forall>r. \<not> waits_for r D"
    and step: "\<And>n' D' s' out. pstep (D, loc n Device) = Some (D', s', out) \<Longrightarrow>
      meets n' D' H (inbox s' Host) (onto j out) \<Longrightarrow> ends_well n'"
    and out: "\<And>D' s' out. pstep (D, loc n Device) = Some (D', s', out) \<Longrightarrow> out = None \<or> (\<exists>bs. out = Some (Host, bs))"
  shows "ends_well n"
proof (cases "pstep (D, loc n Device)")
  case None
  with n r show ?thesis by (intro ends_well_stuck [of n Device]) (auto simp: meets_def)
next
  case (Some t)
  obtain D' s' out' where t: "t = (D', s', out')" by (cases t)
  from meets_step_device [OF n Some [unfolded t] out [OF Some [unfolded t]]] obtain n' where
    "net_step Device n = Some n'" "meets n' D' H (inbox s' Host) (onto j out')" by blast
  with step [OF Some [unfolded t]] n show ?thesis
    by (intro ends_well_step [of n Device n']) (auto simp: meets_def)
qed

lemma host_turn:
  assumes n: "meets n D H i j" and r: "\<forall>r. \<not> waits_for r H"
    and step: "\<And>n' H' s' out. pstep (H, loc n Host) = Some (H', s', out) \<Longrightarrow>
      meets n' D H' (onto i out) (inbox s' Device) \<Longrightarrow> ends_well n'"
    and out: "\<And>H' s' out. pstep (H, loc n Host) = Some (H', s', out) \<Longrightarrow> out = None \<or> (\<exists>bs. out = Some (Device, bs))"
  shows "ends_well n"
proof (cases "pstep (H, loc n Host)")
  case None
  with n r show ?thesis by (intro ends_well_stuck [of n Host]) (auto simp: meets_def)
next
  case (Some t)
  obtain H' s' out' where t: "t = (H', s', out')" by (cases t)
  from meets_step_host [OF n Some [unfolded t] out [OF Some [unfolded t]]] obtain n' where
    "net_step Host n = Some n'" "meets n' D H' (onto i out') (inbox s' Device)" by blast
  with step [OF Some [unfolded t]] n show ?thesis
    by (intro ends_well_step [of n Host n']) (auto simp: meets_def)
qed

lemma meets_sel:
  assumes "meets n D H i j"
  shows "inbox (loc n Device) Host = i" "inbox (loc n Host) Device = j" "quota (loc n Device) q = None"
    "eof (loc n p) q = False" "net_ok n"
  using assms by (auto simp: meets_def net_ok_def healthy_def)

lemma peaceful_sound: "peaceful D H i j \<Longrightarrow> meets n D H i j \<Longrightarrow> ends_well n"
proof (induction D H i j arbitrary: n rule: peaceful.induct)
  case (3 q bs k H i j)
  note * = meets_sel [OF "3.prems"(2)]
  show ?case
    by (rule device_turn [OF "3.prems"(2)])
       (use "3.prems"(1) "3.IH" * in \<open>auto simp: peaceful.simps\<close>)
next
  case (4 a k H i j)
  show ?case
    by (rule device_turn [OF "4.prems"(2)])
       (use "4.prems"(1) "4.IH" meets_sel [OF "4.prems"(2)] in
        \<open>auto simp: peaceful.simps split: list.splits if_splits\<close>)
next
  case (5 a k H i j)
  show ?case
    by (rule device_turn [OF "5.prems"(2)])
       (use "5.prems"(1) "5.IH" meets_sel [OF "5.prems"(2)] in \<open>auto simp: peaceful.simps\<close>)
next
  case (6 q n k H i j m)
  note n = "6.prems"(2) and sel = meets_sel [OF "6.prems"(2)]
  have q: "q = Host" using "6.prems"(1) by (simp add: peaceful.simps)
  show ?case
  proof (cases "n \<le> length i")
    case True
    have "pstep (Read q n k, loc m Device) = Some (k (Some (take n i)), emit (In Host (take n i))
        ((loc m Device)\<lparr>inbox := (inbox (loc m Device))(Host := drop n i)\<rparr>), None)"
      using True by (simp add: q sel)
    from meets_step_device [OF n this] obtain m' where "net_step Device m = Some m'"
      "meets m' (k (Some (take n i))) H (drop n i) j" by auto
    with "6.IH"(1) [OF True] "6.prems"(1) True sel(5) show ?thesis
      by (auto simp: peaceful.simps intro: ends_well_step)
  next
    case False
    note P = "6.prems"(1) [THEN peaceful.simps(6) [THEN iffD1], THEN conjunct2, unfolded if_not_P [OF False]]
    show ?thesis
    proof (cases H)
      case (Ret v)
      with n show ?thesis by (intro ends_well_stuck [of _ Host]) (auto simp: meets_def)
    next
      case (Halt h)
      with n show ?thesis by (intro ends_well_stuck [of _ Host]) (auto simp: meets_def)
    next
      case (Write p bs g)
      with P have g: "p = Device" "peaceful (Read q n k) (g True) (i @ bs) j"
        "peaceful (Read q n k) (g False) i j" by simp_all
      note IH = "6.IH"(2,3) [OF False Write]
      show ?thesis
        by (rule host_turn [OF n]; use g IH(1) IH(2) sel(2) in \<open>auto simp: Write split: option.splits if_splits\<close>)
    next
      case (Read p l g)
      with P have l: "p = Device" "l \<le> length j" by simp_all
      have "pstep (H, loc m Host) = Some (g (Some (take l j)), emit (In Device (take l j))
          ((loc m Host)\<lparr>inbox := (inbox (loc m Host))(Device := drop l j)\<rparr>), None)"
        using l by (simp add: Read sel)
      from meets_step_host [OF n this] obtain m' where "net_step Host m = Some m'"
        "meets m' (Read q n k) (g (Some (take l j))) i (drop l j)" by auto
      with P "6.IH"(4) [OF False Read] Read sel(5) show ?thesis by (auto intro: ends_well_step)
    next
      case (Call a g)
      with P have g: "ans_ok a x \<Longrightarrow> peaceful (Read q n k) (g x) i j" for x by simp
      note IH = "6.IH"(5) [OF False Call]
      show ?thesis
        by (rule host_turn [OF n]) (use g IH sel in \<open>auto simp: Call split: list.splits if_splits\<close>)
    next
      case (Do a g)
      with P have g: "peaceful (Read q n k) g i j" by simp
      note IH = "6.IH"(6) [OF False Do]
      show ?thesis
        by (rule host_turn [OF n]) (use g IH sel in \<open>auto simp: Do\<close>)
    qed
  qed
qed (auto intro!: ends_well_stuck [of _ Device] simp: meets_def)


end
