(* ===== verification/Deadlock.thy ===== *)
theory Deadlock
  imports Peace Client Unlock Enroll
begin

text \<open>
  The client app next to the unlocking and the enrolling program: from the moment the app has
  been loaded they never wait for each other, whatever the TPM, the user, the disk and the
  random sources answer, and whichever write of the host fails.
\<close>


subsection \<open>How the programs move\<close>

named_theorems peace_simps \<open>one move of a program next to another\<close>

text \<open>The device.\<close>

lemma peace_device [peace_simps]:
  "peaceful (bnd (write_u8 b) f) H i j = peaceful (f ()) H i (j @ [b])"
  "peaceful (bnd (ask a) fa) H i j = (\<forall>x. ans_ok a x \<longrightarrow> peaceful (fa x) H i j)"
  "peaceful (bnd (effect a) f) H i j = peaceful (f ()) H i j"
  "peaceful (bnd (apply_keystream c d) fk) H i j = peaceful (fk (crypt c d)) H i j"
  "peaceful (bnd (random n) fb) H i j = (\<forall>bs. length bs = n \<longrightarrow> peaceful (fb bs) H i j)"
  "peaceful (bnd read_cdi fb) H i j = (\<forall>bs. length bs = 32 \<longrightarrow> peaceful (fb bs) H i j)"
  "n \<le> length i \<Longrightarrow> peaceful (bnd (read_into n) fb) H i j = peaceful (fb (take n i)) H (drop n i) j"
  by (auto simp: write_u8_def ask_def effect_def apply_keystream_def random_def read_cdi_def read_into_def
      peaceful.simps)

lemma peace_write_u8_slice [peace_simps]:
  "peaceful (bnd (write_u8_slice bs) f) H i j = peaceful (f ()) H i (j @ bs)"
  by (induction bs arbitrary: j) (simp_all add: peace_device)

text \<open>The host.\<close>

lemma peace_host [peace_simps]:
  "m \<le> length j \<Longrightarrow> peaceful D (bnd (read_exact Device m) g) i j = peaceful D (g (Inr (take m j))) i (drop m j)"
  "peaceful D (bnd (write_all Device bs) gw) i j \<longleftrightarrow>
     peaceful D (gw (Inr ())) (i @ bs) j \<and> peaceful D (gw (Inl OsError)) i j"
  "ans_ok a AErr \<Longrightarrow> peaceful D (bnd (sys a) gs) i j \<longleftrightarrow>
     (\<forall>x. ans_ok a x \<longrightarrow> peaceful D (gs (if x = AErr then Inl OsError else Inr x)) i j)"
  "ans_ok a ANone \<Longrightarrow> peaceful D (bnd (ask a) ga) i j \<longleftrightarrow> (\<forall>x. ans_ok a x \<longrightarrow> peaceful D (ga x) i j)"
  "peaceful D (bnd (effect a) ge) i j \<longleftrightarrow> peaceful D (ge ()) i j"
  "peaceful D (bnd (apply_keystream c d) gk) i j \<longleftrightarrow> peaceful D (gk (crypt c d)) i j"
  using peaceful_host(3) [OF exI, of a AErr] peaceful_host(3) [OF exI, of a ANone]
  by (simp_all add: read_exact_def write_all_def sys_def ask_def effect_def apply_keystream_def
      peaceful_host(1,2,4) split del: if_split)

lemma peace_done [peace_simps]:
  "length i < n \<Longrightarrow> peaceful (bnd (read_into n) f) (Ret v) i j"
  "length i < n \<Longrightarrow> peaceful (bnd (read_into n) f) (Halt h) i j"
  by (simp_all add: read_into_def peaceful.simps(6))

lemma peace_check_status [peace_simps]:
  "j \<noteq> [] \<Longrightarrow> peaceful D (bnd check_status g) i j = peaceful D (g (client_message_try_from (hd j))) i (tl j)"
  by (cases j) (simp_all add: check_status_def peace_host)

lemma peace_tryq [peace_simps]:
  "peaceful D (tryq c m k) i j =
   peaceful D (bnd m (\<lambda>r. case r of Inl e \<Rightarrow> Ret (Inl (c e)) | Inr x \<Rightarrow> k x)) i j"
  by (simp add: tryq_def)


subsection \<open>Unlocking\<close>

definition pass_verdict :: "client_error + client_message \<Rightarrow> cipher \<Rightarrow> (client_error \<times> cipher) + cipher" where
  "pass_verdict r c = (case r of Inr GoodPass \<Rightarrow> Inr c | Inl e \<Rightarrow> Inl (e, c) | _ \<Rightarrow> Inl (OutOfsync, c))"

lemma ask_peaceful:
  assumes cr: "crypto_ok cr"
    and err: "\<And>e c. e \<noteq> PassLen \<Longrightarrow> e \<noteq> Blake2 \<Longrightarrow> \<exists>v. g (Inl (e, c)) = Ret v"
    and sent: "\<And>eh c. length eh = 32 \<Longrightarrow> peaceful (f eh) (bnd check_status (\<lambda>r. bnd (Ret (pass_verdict r c)) g)) [] []"
  shows "peaceful (bnd (read_into 32) f) (bnd (ask_for_password cr cfg fuel tr c) g) [] []"
proof (induction fuel)
  case 0
  then show ?case by (simp add: peace_simps)
next
  case (Suc fuel)
  have stop: "peaceful (bnd (read_into 32) f) (g (Inl (e, c))) [] []" if "e \<noteq> PassLen" "e \<noteq> Blake2" for e c
    using err [OF that, of c] by (auto simp: peace_simps)
  have pass: "peaceful (bnd (read_into 32) f) (bnd (case hash_password cr cfg p of
        None \<Rightarrow> Ret (Inl (ClientUnknownError, c))
      | Some hashed_pass \<Rightarrow>
           bnd (effect (Zeroize ''passphrase_bytes'')) (\<lambda>_.
           bnd (apply_keystream c hashed_pass) (\<lambda>(encrypted_hashed_pass, c).
           bnd (effect (Zeroize ''hashed_pass'')) (\<lambda>_.
           tryq (\<lambda>e. (client_error_from_io e, c)) (write_all Device encrypted_hashed_pass) (\<lambda>_.
           bnd (effect (Zeroize ''actual_pass_len'')) (\<lambda>_.
           bnd check_status (\<lambda>r. Ret (case r of
             Inr GoodPass \<Rightarrow> Inr c
           | Inl e \<Rightarrow> Inl (e, c)
           | _ \<Rightarrow> Inl (OutOfsync, c)))))))))
      g) [] []" for p
  proof (cases "hash_password cr cfg p")
    case None
    then show ?thesis by (simp add: stop)
  next
    case (Some h)
    from hash_length [OF cr this] sent [unfolded pass_verdict_def] stop Some show ?thesis
      by (simp add: peace_simps crypt_def keystream_at_def client_error_from_io_def)
  qed
  show ?case
    by (auto simp: Let_def peace_simps client_error_from_io_def stop Suc pass)
qed



lemma decrypt_peaceful:
  assumes key: "length key = 32" and win: "\<And>c. peaceful (f [0x99]) (g (Inr c)) [] []"
    and fine: "\<And>c. \<exists>v. g (Inr c) = Ret v"
    and over: "\<And>v. peaceful (f [0x98]) (Ret v) [] []"
    and err: "\<And>e c. e \<noteq> CryptsetupKilled \<Longrightarrow> e \<noteq> CryptsetupErr \<Longrightarrow> \<exists>v. g (Inl (e, c)) = Ret v"
    and again: "\<And>e c. e = CryptsetupKilled \<or> e = CryptsetupErr \<Longrightarrow> peaceful (f [0x98]) (g (Inl (e, c))) [] []"
  shows "peaceful (bnd (read_into (Suc 0)) f) (bnd (decrypt cfg c) g) [] key"
proof -
  have stop: "peaceful (bnd (read_into (Suc 0)) f) (g (Inl (HostIOError, c))) [] []"
     "peaceful (bnd (read_into (Suc 0)) f) (g (Inl (HostIOError, c))) [] key"
     "peaceful (bnd (read_into (Suc 0)) f) (g (Inl (PipeError, c))) [] []"
     "peaceful (bnd (read_into (Suc 0)) f) (g (Inr c)) [] []"
     "peaceful (f [0x98]) (g (Inl (HostIOError, c))) [] []" for c
    using err [of HostIOError c] err [of PipeError c] fine [of c] over by (auto simp: peace_simps)
  show ?thesis
    by (auto simp: decrypt_def peace_simps key stop host_err_from_io_def crypt_def Let_def win again
        split: option.splits)
qed

lemma after_end [simp]: "peaceful (bnd (client_loop cr c n) (\<lambda>_. client_epilogue)) (Ret v) [] j"
proof (induction "3 - n" arbitrary: n c j)
  case 0
  then show ?case by (subst client_loop.simps) simp
next
  case (Suc x)
  then have n: "\<not> 3 \<le> n" by simp
  then show ?case
    by (subst client_loop.simps) (simp add: client_attempt_def peace_simps)
qed

lemma loop_peaceful:
  assumes cr: "crypto_ok cr"
  shows "peaceful (bnd (client_loop cr c n) (\<lambda>_. client_epilogue))
     (tries_loop cr cfg fuel tr tries c') [] []"
proof (induction "3 - n" arbitrary: n c c' tries)
  case 0
  then show ?case by (subst client_loop.simps) simp
next
  case (Suc x)
  then have n: "\<not> 3 \<le> n" and IH: "\<And>c c' tries. peaceful (bnd (client_loop cr c (Suc n)) (\<lambda>_. client_epilogue))
     (tries_loop cr cfg fuel tr tries c') [] []" by simp_all
  show ?case
    by (subst client_loop.simps, subst tries_loop.simps)
       (auto simp add: n peace_simps client_message_try_from_def client_attempt_def IH intro!: ask_peaceful cr,
        auto simp: crypt_def keystream_at_def peace_simps client_message_try_from_def pass_verdict_def Let_def IH
           crypto_okD [OF cr] client_epilogue_def intro!: decrypt_peaceful)
qed


lemma peace_verify:
  assumes "\<And>r. (case r of Inr sig \<Rightarrow> length sig = 64 | Inl e \<Rightarrow> True) \<Longrightarrow> peaceful D (f r) i j"
  shows "peaceful D (bnd (verify chal) f) i j"
  by (auto simp: verify_def peace_simps length_pack_sig intro!: assms split: option.splits)

subsection \<open>After loading\<close>

definition auth_session :: "crypto \<Rightarrow> (box_error + bool \<times> cipher) proc" where
  "auth_session cr =
    tryq BoxIo (read_exact Device 32) (\<lambda>nonce.
    tryq id (get_chacha20_cipher cr nonce) (\<lambda>(cipher, chal).
    tryq id (bnd (verify chal) (\<lambda>r.
      (case r of
         Inr sig \<Rightarrow>
           tryq BoxIo (write_all Device [host_message_u8 TpmSigned]) (\<lambda>_.
           tryq BoxIo (write_all Device sig) (\<lambda>_.
           Ret (Inr True)))
       | Inl e \<Rightarrow>
           tryq BoxIo (write_all Device [host_err_u8 TpmRefusedToSign]) (\<lambda>_.
           Ret (Inr False))))) (\<lambda>trustworthy.
    tryq id (read_verdict trustworthy) (\<lambda>trustworthy.
    Ret (Inr (trustworthy, cipher))))))"

lemma auth_loads:
  "auth_with_tkey_and_tpm cr bin = tryq id tkey_new (\<lambda>_. tryq id (load_app cr bin) (\<lambda>_. auth_session cr))"
  unfolding auth_with_tkey_and_tpm_def auth_session_def ..

lemma auth_peaceful:
  assumes cr: "crypto_ok cr"
    and err: "\<And>e. \<exists>v. f (Inl e) = Ret v"
    and ok: "\<And>t c c'. peaceful (bnd (client_loop cr c 0) (\<lambda>_. client_epilogue)) (f (Inr (t, c'))) [] []"
  shows "peaceful (client_main cr key_bytes) (bnd (auth_session cr) f) [] []"
proof -
  have stop: "peaceful (bnd (read_into n) h) (f (Inl e)) i j" if "length i < n" for e n h i j
    using err [of e] that by (auto simp: peace_simps)
  show ?thesis
    by (auto simp: client_main_def auth_session_def get_chacha20_cipher_def Let_def peace_simps
      crypto_okD [OF cr] stop verify_sig_def judge_sig_def dev_panic_def read_verdict_def
      client_message_try_from_def ok
      intro!: peace_verify split: option.split sum.split)
qed


definition unlock_session :: "crypto \<Rightarrow> config \<Rightarrow> nat \<Rightarrow> (box_error + exit_code) proc" where
  "unlock_session cr cfg fuel =
     tryq id (auth_session cr) (\<lambda>(trustworthy, cipher). tries_loop cr cfg fuel trustworthy 1 cipher)"

definition enroll_session :: "crypto \<Rightarrow> config \<Rightarrow> nat \<Rightarrow> (box_error + exit_code) proc" where
  "enroll_session cr cfg fuel =
     tryq id (auth_session cr) (\<lambda>(trustworthy, cipher).
     tryq id expect_ready (\<lambda>_.
     tryq id (enroll_pass_enroll cr cfg fuel cipher) (\<lambda>cipher.
     bnd (enroll_enroll cfg cipher) (\<lambda>r. Ret (case r of
       Inr _ \<Rightarrow> Inr Success
     | Inl CryptsetupErr \<Rightarrow> Inr Failure
     | Inl e \<Rightarrow> Inl (BoxHost e))))))"

lemma tryq_id_assoc: "tryq id (tryq id p f) g = tryq id p (\<lambda>x. tryq id (f x) g)"
  unfolding tryq_def bnd_assoc by (rule arg_cong [of _ _ "bnd p"]) (auto split: sum.splits)

lemma host_main_loads:
  "host_main cr cfg fuel =
    tryq BoxIo (sys (CreateDirAll ''/mnt/boot'')) (\<lambda>_.
    tryq BoxIo (sys (Status ''/usr/bin/mount'' [boot_device cfg, ''/mnt/boot''])) (\<lambda>mount.
    if \<not> bool_of mount then
      Ret (Inl (BoxStr ''failed to mount, auto detection of boot device was wrong.''))
    else
    tryq BoxIo (sys (ReadFile ''/mnt/boot/client'')) (\<lambda>bin.
    tryq id tkey_new (\<lambda>_.
    tryq id (load_app cr (bytes_of bin)) (\<lambda>_.
    unlock_session cr cfg fuel)))))"
  unfolding host_main_def auth_loads unlock_session_def tryq_id_assoc ..

lemma enroll_main_loads:
  "enroll_main cr cfg bin fuel = (if length bin < 1000 then Halt Panic
     else tryq id tkey_new (\<lambda>_. tryq id (load_app cr bin) (\<lambda>_. enroll_session cr cfg fuel)))"
  unfolding enroll_main_def auth_loads enroll_session_def tryq_id_assoc ..

lemma unlock_peaceful:
  "crypto_ok cr \<Longrightarrow> peaceful (client_main cr key_bytes) (unlock_session cr cfg fuel) [] []"
  unfolding unlock_session_def tryq_def by (rule auth_peaceful) (simp_all add: loop_peaceful)

lemma pass_enroll_peaceful:
  assumes cr: "crypto_ok cr" and err: "\<And>e. \<exists>v. g (Inl e) = Ret v"
    and sent: "\<And>eh c. length eh = 32 \<Longrightarrow> peaceful (f eh) (bnd check_status (\<lambda>r. bnd (Ret (case r of
           Inr GoodPass \<Rightarrow> Inr c | Inl e \<Rightarrow> Inl (BoxClient e) | _ \<Rightarrow> Inl (BoxClient OutOfsync))) g)) [] []"
  shows "peaceful (bnd (read_into 32) f) (bnd (enroll_pass_enroll cr cfg fuel c) g) [] []"
proof (induction fuel)
  case 0
  then show ?case by (simp add: peace_simps)
next
  case (Suc fuel)
  have stop: "peaceful (bnd (read_into 32) f) (g (Inl e)) [] []" for e
    using err [of e] by (auto simp: peace_simps)
  have pass: "peaceful (bnd (read_into 32) f) (bnd (case hash_password cr cfg p of
       None \<Rightarrow> Ret (Inl (BoxLib ''argon2''))
     | Some password_hash \<Rightarrow>
         bnd (apply_keystream c password_hash) (\<lambda>(password_hash, c).
         tryq BoxIo (write_all Device password_hash) (\<lambda>_.
         bnd (effect (Zeroize ''password_hash'')) (\<lambda>_.
         bnd (effect (Zeroize ''pass_len'')) (\<lambda>_.
         bnd check_status (\<lambda>r. Ret (case r of
           Inr GoodPass \<Rightarrow> Inr c
         | Inl e \<Rightarrow> Inl (BoxClient e)
         | _ \<Rightarrow> Inl (BoxClient OutOfsync)))))))) g) [] []" for p
  proof (cases "hash_password cr cfg p")
    case None
    then show ?thesis by (simp add: stop)
  next
    case (Some h)
    from hash_length [OF cr this] sent stop Some show ?thesis
      by (simp add: peace_simps crypt_def keystream_at_def)
  qed
  show ?case
    by (auto simp: Let_def peace_simps stop Suc pass)
qed

lemma enroll_enroll_peaceful:
  assumes key: "length key = 32" and g: "\<And>r. \<exists>v. g r = Ret v"
    and over: "\<And>b v. length b = 1 \<Longrightarrow> peaceful (f b) (Ret v) [] []"
  shows "peaceful (bnd (read_into (Suc 0)) f) (bnd (enroll_enroll cfg c) g) [] key"
proof -
  have stop: "peaceful (bnd (read_into (Suc 0)) f) (g r) [] j"
     "length b = 1 \<Longrightarrow> peaceful (f b) (g r) [] []" for j r b
    using g [of r] over by (auto simp: peace_simps)
  show ?thesis
    by (auto simp: enroll_enroll_def peace_simps key stop host_err_from_io_def crypt_def Let_def
        split: option.splits)
qed

lemma enroll_peaceful:
  assumes cr: "crypto_ok cr"
  shows "peaceful (client_main cr key_bytes) (enroll_session cr cfg fuel) [] []"
  unfolding enroll_session_def tryq_def [of id "auth_session cr"]
proof (rule auth_peaceful [OF cr])
  fix t c c'
  show "peaceful (bnd (client_loop cr c 0) (\<lambda>_. client_epilogue)) (case Inr (t, c') of
      Inl e \<Rightarrow> Ret (Inl (id e))
    | Inr (trustworthy, cipher) \<Rightarrow>
     tryq id expect_ready (\<lambda>_.
     tryq id (enroll_pass_enroll cr cfg fuel cipher) (\<lambda>cipher.
     bnd (enroll_enroll cfg cipher) (\<lambda>r. Ret (case r of
       Inr _ \<Rightarrow> Inr Success
     | Inl CryptsetupErr \<Rightarrow> Inr Failure
     | Inl e \<Rightarrow> Inl (BoxHost e)))))) [] []"
    by (subst client_loop.simps)
      (auto simp: peace_simps expect_ready_def client_message_try_from_def client_attempt_def intro!: pass_enroll_peaceful cr,
        auto simp: crypt_def keystream_at_def peace_simps client_message_try_from_def Let_def
           crypto_okD [OF cr] client_epilogue_def intro!: enroll_enroll_peaceful)
qed simp

subsection \<open>Property\<close>

lemma app_net_meets: "meets (app_net D H T U) D H [] []"
  by (simp add: meets_def app_net_def net_ok_def)

text \<open>
  Property C7. Once the app is loaded (\<open>host_main_loads\<close>, \<open>enroll_main_loads\<close>), the TKey and
  the unlocking or the enrolling program never deadlock. For every sequence of answers of
  libraries, TPM, user and cryptsetup, there is one final state which every schedule can be
  completed to within a fixed number of steps, and in it not both are waiting: the TKey for a
  message of the host and the host for one of the TKey. So whoever waits forever waits for a
  program that has stopped or for a call that is never answered.
\<close>

theorem no_deadlock:
  assumes "crypto_ok cr" "H \<in> {unlock_session cr cfg fuel, enroll_session cr cfg fuel}"
  shows "\<exists>n steps. final net_step n \<and>
    (\<forall>sched m. sched_run net_step sched (app_net (client_main cr key_bytes) H T U) = Some m \<longrightarrow>
       length sched \<le> steps \<and> (\<exists>rest. sched_run net_step rest m = Some n)) \<and>
    \<not> (waits_for Host (prc n Device) \<and> waits_for Device (prc n Host))"
proof -
  let ?n0 = "app_net (client_main cr key_bytes) H T U"
  have "net_ok ?n0" using meets_sel(5) [OF app_net_meets] .
  from net.one_end [OF this] obtain n steps where fin: "final net_step n"
    and all: "\<And>sched m. sched_run net_step sched ?n0 = Some m \<Longrightarrow> length sched \<le> steps \<and>
      (\<exists>rest. sched_run net_step rest m = Some n)" by blast
  have "peaceful (client_main cr key_bytes) H [] []"
    using assms unlock_peaceful enroll_peaceful by blast
  from peaceful_sound [OF this app_net_meets] all [of "[]" ?n0] fin
  have "\<not> (waits_for Host (prc n Device) \<and> waits_for Device (prc n Host))"
    unfolding ends_well_def deadlock_def by auto
  with fin all show ?thesis by blast
qed

text \<open>A session in which the first passphrase is wrong and the user never types a second one.\<close>

definition demo_app_net :: "(box_error + exit_code) net" where
  "demo_app_net = app_net (client_main toy_crypto (zeros 91))
     (unlock_session toy_crypto \<lparr>luks_uuid = [], boot_device = [], encrypted_disk = [], salt = []\<rparr> 1)
     [ABytes (zeros 32), ABytes (zeros 12), ABytes (zeros 32), ABytes (zeros 32), AOk]
     ([ABytes (zeros 32)] @ replicate 8 AOk @ [ABytes (zeros 32), ASig (zeros 32) (zeros 32),
       ABytes (replicate 9 0x61), AOk, AOk, AOk, ACode (Some 2)])"

theorem no_deadlock_witness:
  "\<exists>sched n. sched_run net_step sched demo_app_net = Some n \<and> final net_step n \<and>
     \<not> (waits_for Host (prc n Device) \<and> waits_for Device (prc n Host))"
proof -
  have "sched_run net_step [] demo_app_net = Some demo_app_net" by simp
  with no_deadlock [OF toy_crypto_ok insertI1] show ?thesis
    unfolding demo_app_net_def by blast
qed

end
