(* ===== verification/Reference.thy ===== *)
theory Reference
  imports Phases
begin


text \<open>
  The TKey as a function of bytes: a reference definition of what the client app answers to
  whatever the host sends, complete or cut off anywhere, well formed or not; and the proof
  that the app, run on these bytes, sends exactly that.
\<close>

subsection \<open>The reference\<close>

definition seal_reply :: "crypto \<Rightarrow> bytes \<Rightarrow> cipher \<Rightarrow> bytes \<Rightarrow> bytes" where
  "seal_reply cr cdi c eh = fst (crypt (advance 32 c) (blake2s_fw cr cdi (fst (crypt c eh))))"

primrec guesses_spec :: "crypto \<Rightarrow> bytes \<Rightarrow> nat \<Rightarrow> cipher \<Rightarrow> bytes \<Rightarrow> bytes" where
  "guesses_spec cr cdi 0 c inp = []"
| "guesses_spec cr cdi (Suc n) c inp =
    (if length inp < 32 then [0x22]
     else [0x22, 0x21] @ seal_reply cr cdi c (take 32 inp) @
       (case drop 32 inp of
          [] \<Rightarrow> []
        | b # rest \<Rightarrow> if b = 0x99 then [] else guesses_spec cr cdi n (advance 64 c) rest))"

text \<open>
  The gate: what is answered to the signature, whether the user is asked to touch the key, and
  the bytes that follow, if it opens.
\<close>

datatype gate_result = Silent | Stop byte | Ask colour byte bytes | Pass byte bytes

definition gate_spec :: "crypto \<Rightarrow> bytes \<Rightarrow> bytes \<Rightarrow> bytes \<Rightarrow> gate_result" where
  "gate_spec cr key_bytes chal inp = (case p256_key cr (sec1_bytes key_bytes) of
     None \<Rightarrow> Stop 0x14
   | Some k \<Rightarrow> (case inp of
       [] \<Rightarrow> Silent
     | status # r \<Rightarrow>
         if status \<noteq> 0x97 then Ask LED_YELLOW 0x13 r
         else if length r < 64 then Silent
         else (case p256_sig cr (take 64 r) of
           None \<Rightarrow> Stop 0x12
         | Some sg \<Rightarrow> if p256_verify cr k chal sg then Pass 0x20 (drop 64 r)
                     else Ask LED_PURPLE 0x13 (drop 64 r))))"

definition device_spec :: "crypto \<Rightarrow> bytes \<Rightarrow> device_secrets \<Rightarrow> bool \<Rightarrow> bytes \<Rightarrow> bytes" where
  "device_spec cr key_bytes d touch inp = hello cr d @ (if length inp < 32 then [] else
    (case chacha cr (x_dh cr (x_secret cr (d_seed d)) (take 32 inp)) (d_enc_nonce d) of
       None \<Rightarrow> [0x16]
     | Some stream \<Rightarrow>
         let guesses = guesses_spec cr (d_cdi d) 3 \<lparr>ks = stream, cpos = 0\<rparr> in
         (case gate_spec cr key_bytes
             (challange (d_nonce d) (take 32 inp) (d_pub cr d) (d_enc_nonce d)) (drop 32 inp) of
            Silent \<Rightarrow> []
          | Stop b \<Rightarrow> [b]
          | Pass b r \<Rightarrow> b # guesses r
          | Ask led b r \<Rightarrow> b # (if touch then guesses r else []))))"

text \<open>The answers the app's own calls get: the touch only where it is asked for.\<close>

definition device_tape :: "crypto \<Rightarrow> bytes \<Rightarrow> device_secrets \<Rightarrow> bool \<Rightarrow> bytes \<Rightarrow> ans list" where
  "device_tape cr key_bytes d touch inp =
     [ABytes (d_nonce d), ABytes (d_enc_nonce d), ABytes (d_seed d)] @
     (case gate_spec cr key_bytes
          (challange (d_nonce d) (take 32 inp) (d_pub cr d) (d_enc_nonce d)) (drop 32 inp) of
        Ask led b r \<Rightarrow> [ABool touch] | _ \<Rightarrow> []) @
     concat (replicate 3 (dev_attempt_tape (d_cdi d)))"

subsection \<open>The app implements it\<close>

lemma on_read_into_wait [on_simps]:
  "length bs < n \<Longrightarrow> run (bnd (read_into n) f) (on Host bs T H) = (bnd (read_into n) f, on Host bs T H)"
  by (simp add: read_into_def)

lemma on_read_into_take:
  "n \<le> length bs \<Longrightarrow> run (bnd (read_into n) f) (on Host bs T H) =
     run (f (take n bs)) (on Host (drop n bs) T (H @ [In Host (take n bs)]))"
  using on_read_into(1) [of "take n bs" n f "drop n bs" T H] by simp

lemma sent_outs [simp]: "sent q (map (\<lambda>b. Out p [b]) bs) = (if p = q then bs else [])"
  by (induction bs) auto

lemma guesses_refine:
  assumes cr: "crypto_ok cr" and cdi: "length cdi = 32"
  shows "m + n = 3 \<Longrightarrow> sent Host (trace (snd (run (bnd (client_loop cr c m) (\<lambda>_. client_epilogue))
      (on Host inp (concat (replicate n (dev_attempt_tape cdi))) H)))) =
    sent Host H @ guesses_spec cr cdi n c inp"
proof (induction n arbitrary: m c inp H)
  case 0
  then show ?case by (subst client_loop.simps) simp
next
  case (Suc n)
  have m: "\<not> 3 \<le> m" "Suc m + n = 3" using Suc.prems by simp_all
  note * = client_attempt_def on_simps dev_attempt_tape_def Let_def crypt_def seal_reply_def advance_def
    crypto_okD [OF cr] cdi
  show ?case
  proof (cases "length inp < 32")
    case True
    then show ?thesis
      by (subst client_loop.simps) (simp add: m *)
  next
    case False
    then obtain eh rest where inp: "inp = eh @ rest" "length eh = 32"
      by (metis append_take_drop_id length_take min.absorb2 not_less)
    show ?thesis
    proof (cases rest)
      case Nil
      with inp show ?thesis
        by (subst client_loop.simps) (simp add: m * keystream_at_def)
    next
      case (Cons b ys)
      have "sent Host (dev_attempt_events cr c cdi eh b) = [0x22, 0x21] @ seal_reply cr cdi c eh"
        using inp(2) by (simp add: dev_attempt_events_def Let_def seal_reply_def advance_def)
      with Cons inp Suc.IH [OF m(2), of "advance 64 c" ys "H @ dev_attempt_events cr c cdi eh b"] show ?thesis
        by (cases "b = 0x99"; subst client_loop.simps)
          (simp_all add: m on_client_attempt [OF cr cdi] client_epilogue_def on_simps)
    qed
  qed
qed


text \<open>\<open>goes_on k r T H b\<close>: the gate answers \<open>b\<close> and goes on with \<open>k\<close> on the bytes \<open>r\<close>.\<close>

definition goes_on :: "'a proc \<Rightarrow> bytes \<Rightarrow> ans list \<Rightarrow> event list \<Rightarrow> byte \<Rightarrow> 'a proc \<times> env \<Rightarrow> bool" where
  "goes_on k r T H b ps \<longleftrightarrow> (\<exists>es. sent Host es = [b] \<and> run k (on Host r T (H @ es)) = ps)"

lemma goes_onI: "sent Host es = [b] \<Longrightarrow> goes_on k r T H b (run k (on Host r T (H @ es)))"
  by (auto simp: goes_on_def)

lemma gate_refine:
  fixes cr key_bytes chal inp touch
  defines "fin \<equiv> \<lambda>res T H k. run (bnd (verify_sig cr key_bytes chal) (\<lambda>r. thn (judge_sig r) k))
     (on Host inp ((case res of Ask led b r \<Rightarrow> [ABool touch] | _ \<Rightarrow> []) @ T) H)"
  shows "case gate_spec cr key_bytes chal inp of
      Silent \<Rightarrow> sent Host (trace (snd (fin Silent T H k))) = sent Host H
    | Stop b \<Rightarrow> sent Host (trace (snd (fin (Stop b) T H k))) = sent Host H @ [b]
    | Pass b r \<Rightarrow> goes_on k r T H b (fin (Pass b r) T H k)
    | Ask led b r \<Rightarrow> if touch then goes_on k r T H b (fin (Ask led b r) T H k)
        else sent Host (trace (snd (fin (Ask led b r) T H k))) = sent Host H @ [b]"
proof -
  note * = fin_def gate_spec_def verify_sig_def judge_sig_def on_simps dev_panic_def
  show ?thesis
  proof (cases "p256_key cr (sec1_bytes key_bytes)")
    case None
    then show ?thesis by (simp add: *)
  next
    case (Some key)
    note k = this
    show ?thesis
    proof (cases inp)
      case Nil
      with k show ?thesis by (simp add: *)
    next
      case (Cons st r)
      show ?thesis
      proof (cases "st \<noteq> 0x97 \<or> length r < 64")
        case True
        with k Cons show ?thesis by (auto simp: * intro!: goes_onI)
      next
        case False
        then obtain sig rest where r: "r = sig @ rest" "length sig = 64" "st = 0x97"
          by (metis append_take_drop_id length_take min.absorb2 not_less)
        with k Cons show ?thesis
          by (cases "p256_sig cr sig") (auto simp: * intro!: goes_onI)
      qed
    qed
  qed
qed

text \<open>
  Property C5. The client app implements the reference on every input: whatever bytes the host
  sends, in full or cut off anywhere, with or without a signature, with more or fewer guesses,
  the bytes the app sends are exactly \<open>device_spec\<close> of them. So besides its public values and
  status bytes the TKey reveals only keys derived from the guesses it was sent, each encrypted
  under the session's keystream, at most three, and none unless the gate opened.
\<close>

theorem device_refines:
  assumes cr: "crypto_ok cr" and d: "secrets_ok d"
  shows "sent Host (trace (snd (run (client_main cr key_bytes :: 'a proc)
      (on Host inp (device_tape cr key_bytes d touch inp) [])))) = device_spec cr key_bytes d touch inp"
proof -
  have len: "length (d_nonce d) = 32" "length (d_enc_nonce d) = 12" "length (d_seed d) = 32"
    "length (d_cdi d) = 32" using d by (simp_all add: secrets_ok_def)
  note * = client_main_def device_tape_def on_simps Let_def len
  have hello: "sent Host (hello_events cr d) = hello cr d"
    by (simp add: hello_events_def hello_def)
  show ?thesis
  proof (cases "length inp < 32")
    case True
    then show ?thesis by (simp add: * device_spec_def hello_def d_pub_def)
  next
    case False
    then obtain hp rest where inp: "inp = hp @ rest" "length hp = 32"
      by (metis append_take_drop_id length_take min.absorb2 not_less)
    show ?thesis
    proof (cases "chacha cr (x_dh cr (x_secret cr (d_seed d)) hp) (d_enc_nonce d)")
      case None
      with inp show ?thesis by (simp add: * device_spec_def hello_def d_pub_def dev_panic_def)
    next
      case (Some stream)
      let ?c = "\<lparr>ks = stream, cpos = 0\<rparr>" and ?res = "gate_spec cr key_bytes
        (challange (d_nonce d) hp (d_pub cr d) (d_enc_nonce d)) rest"
      let ?k = "bnd (client_loop cr ?c 0) (\<lambda>_. client_epilogue) :: 'a proc"
      let ?H = "hello_events cr d @ [In Host hp]" and ?T = "concat (replicate 3 (dev_attempt_tape (d_cdi d)))"
      have "run (client_main cr key_bytes :: 'a proc) (on Host inp (device_tape cr key_bytes d touch inp) []) =
        run (bnd (verify_sig cr key_bytes (challange (d_nonce d) hp (d_pub cr d) (d_enc_nonce d)))
          (\<lambda>r. thn (judge_sig r) ?k)) (on Host rest ((case ?res of Ask led b r \<Rightarrow> [ABool touch] | _ \<Rightarrow> []) @ ?T) ?H)"
        using inp Some by (simp add: * hello_events_def d_pub_def)
      moreover have "goes_on ?k r ?T ?H b ps \<Longrightarrow>
         sent Host (trace (snd ps)) = hello cr d @ b # guesses_spec cr (d_cdi d) 3 ?c r" for r b ps
        by (auto simp: goes_on_def hello guesses_refine [OF cr len(4)])
      ultimately show ?thesis
        using gate_refine [where cr = cr and key_bytes = key_bytes and inp = rest and touch = touch and T = ?T
            and k = ?k and H = ?H and chal = "challange (d_nonce d) hp (d_pub cr d) (d_enc_nonce d)"] inp Some
        by (cases ?res) (auto simp: device_spec_def hello Let_def split: if_splits)
    qed
  qed
qed

text \<open>The TPM refused, the user touches the key, and the host hangs up in its first guess.\<close>

definition demo_secrets :: device_secrets where
  "demo_secrets = \<lparr>d_nonce = zeros 32, d_enc_nonce = zeros 12, d_seed = zeros 32, d_cdi = zeros 32\<rparr>"

theorem device_refines_witness:
  "sent Host (trace (snd (run (client_main toy_crypto (zeros 91) :: unit proc)
     (on Host (zeros 32 @ [0x90] @ zeros 31) (device_tape toy_crypto (zeros 91) demo_secrets True
       (zeros 32 @ [0x90] @ zeros 31)) [])))) = zeros 76 @ [0x13, 0x22]"
proof -
  have ok: "secrets_ok demo_secrets" by code_simp
  have "device_spec toy_crypto (zeros 91) demo_secrets True (zeros 32 @ [0x90] @ zeros 31) = zeros 76 @ [0x13, 0x22]"
    by code_simp
  with device_refines [OF toy_crypto_ok ok] show ?thesis by metis
qed

end
