(* ===== verification/Passphrase.thy ===== *)
theory Passphrase
  imports Phases Qubes
begin

text \<open>
  Entering passphrases: which of the things a user types is used, and what is sent to the TKey
  for it. The new passphrase of the enrolling programs, on every environment; the passphrase
  of an unlocking, with the prompts before it; and what the TKey is told about the disk.
\<close>

subsection \<open>New passphrases\<close>

text \<open>What rpassword returned, in order.\<close>

definition entered :: "event list \<Rightarrow> bytes list" where
  "entered h = concat (map (\<lambda>e. case e of
     Got a x \<Rightarrow> if a = PromptPassword then [bytes_of x] else [] | _ \<Rightarrow> []) h)"

lemma entered_simps [simp]:
  "entered [] = []" "entered (g @ h) = entered g @ entered h"
  "entered (e # h) = (case e of
     Got a x \<Rightarrow> if a = PromptPassword then bytes_of x # entered h else entered h | _ \<Rightarrow> entered h)"
  by (auto simp: entered_def split: event.splits)

text \<open>The last two entries agree, \<open>fits\<close> their length, and only their hash was sent.\<close>

definition chosen :: "crypto \<Rightarrow> config \<Rightarrow> cipher \<Rightarrow> (nat \<Rightarrow> bool) \<Rightarrow> box_error + cipher \<Rightarrow> event list \<Rightarrow> bool" where
  "chosen cr cfg c fits r h = (case r of
     Inl e \<Rightarrow> True
   | Inr c' \<Rightarrow> (case rev (entered h) of
       p # q # _ \<Rightarrow> p = q \<and> fits (length p) \<and> (case hash_password cr cfg p of
           None \<Rightarrow> False
         | Some hash \<Rightarrow> sent Device h = fst (crypt c hash) \<and> c' = snd (crypt c hash))
     | _ \<Rightarrow> False))"

abbreviation plain_wp :: "'a proc \<Rightarrow> ('a \<Rightarrow> event list \<Rightarrow> bool) \<Rightarrow> event list \<Rightarrow> bool" where
  "plain_wp \<equiv> wp (guarded (\<lambda>_. True) (\<lambda>_ _. True)) (\<lambda>h q. h = OutOfFuel \<and> sent Device q = [])"

lemma enroll_pass_wp:
  "sent Device h = [] \<Longrightarrow> plain_wp (enroll_pass_enroll cr cfg fuel c) (chosen cr cfg c (\<lambda>n. 8 \<le> n)) h"
proof (induction fuel arbitrary: h)
  case (Suc fuel)
  then show ?case
    by (auto simp: wp_simps chosen_def Let_def check_status_def case_prod_beta split: option.splits sum.splits client_message.splits)
qed simp

lemma qubes_pass_wp:
  "sent Device h = [] \<Longrightarrow>
   plain_wp (qubes_pass_enroll cr cfg fuel c) (chosen cr cfg c (\<lambda>n. 8 \<le> n \<and> n \<le> 255)) h"
proof (induction fuel arbitrary: h)
  case (Suc fuel)
  then show ?case
    by (auto simp: wp_simps chosen_def Let_def check_status_def case_prod_beta split: option.splits sum.splits client_message.splits)
qed simp


lemma plain_sound:
  assumes "plain_wp p Q []"
  shows "case run p (s\<lparr>trace := []\<rparr>) of
     (Ret v, s') \<Rightarrow> Q v (trace s') | (Halt h, s') \<Rightarrow> h = OutOfFuel \<and> sent Device (trace s') = [] | _ \<Rightarrow> True"
proof -
  obtain p' s' where r: "run p (s\<lparr>trace := []\<rparr>) = (p', s')" by fastforce
  from wp_sound [OF assms r] obtain q where
    q: "mfold (guarded (\<lambda>_. True) (\<lambda>_ _. True)) [] (trace s') = Some q" and w: "plain_wp p' Q q" by auto
  have "q = trace s'" using mfold_guarded [OF q] by simp
  with w show ?thesis unfolding r by (cases p') auto
qed

text \<open>
  Property C36. A new passphrase is only used when it was entered twice and is long enough. On
  every environment, when \<open>pass_enroll\<close> returns Ok, the last two entries are equal and of at
  least 8 bytes (in the Qubes program at most 255), the one thing sent to the TKey is their
  Argon2 hash under the session cipher, and the cipher has advanced past it. Until then it
  asks again, and sends nothing.
\<close>

theorem new_passphrase_confirmed:
  "(case run (enroll_pass_enroll cr cfg fuel c) (s\<lparr>trace := []\<rparr>) of
      (Ret r, s') \<Rightarrow> chosen cr cfg c (\<lambda>n. 8 \<le> n) r (trace s')
    | (Halt h, s') \<Rightarrow> h = OutOfFuel \<and> sent Device (trace s') = [] | _ \<Rightarrow> True) \<and>
   (case run (qubes_pass_enroll cr cfg fuel c) (s\<lparr>trace := []\<rparr>) of
      (Ret r, s') \<Rightarrow> chosen cr cfg c (\<lambda>n. 8 \<le> n \<and> n \<le> 255) r (trace s')
    | (Halt h, s') \<Rightarrow> h = OutOfFuel \<and> sent Device (trace s') = [] | _ \<Rightarrow> True)"
  by (intro conjI plain_sound enroll_pass_wp qubes_pass_wp) simp_all

subsection \<open>The passphrase of an unlocking\<close>

definition short_events :: "bool \<Rightarrow> bytes list \<Rightarrow> event list" where
  "short_events tr shorts = concat (map (\<lambda>s.
     [Got (Output ''/usr/bin/systemd-ask-password'' [if tr then prompt_trusted else prompt_untrusted]) (ABytes s),
      Did (Zeroize ''passphrase_bytes'')]) shorts)"

lemma on_short:
  assumes "length s < 9"
  shows "run (bnd (ask_for_password cr cfg (Suc fuel) tr c) f) (on q I (ABytes s # T) H) =
    run (bnd (ask_for_password cr cfg fuel tr c) f) (on q I T (H @ short_events tr [s]))"
  using assms by (simp add: ask_for_password.simps(2) on_simps Let_def short_events_def)

lemma on_shorts:
  "\<forall>s \<in> set shorts. length s < 9 \<Longrightarrow>
   run (bnd (ask_for_password cr cfg (length shorts + fuel) tr c) f) (on q I (map ABytes shorts @ T) H) =
   run (bnd (ask_for_password cr cfg fuel tr c) f) (on q I T (H @ short_events tr shorts))"
proof (induction shorts arbitrary: H)
  case (Cons s shorts)
  then show ?case by (simp add: on_short) (simp add: short_events_def)
qed (simp add: short_events_def)

lemma quiet_shorts [simp]: "sent q (short_events tr shorts) = []"
  by (induction shorts) (simp_all add: short_events_def)

text \<open>
  Property C37. Passphrases shorter than 8 bytes (and the newline) do not cost a try: the user
  is asked again, however often, and nothing is sent to the TKey. The first one that is long
  enough is hashed without its newline and sent under the session cipher, and the TKey's
  GoodPass makes \<open>ask_for_password\<close> return Ok.
\<close>

theorem short_passphrases_asked_again:
  assumes "crypto_ok cr" "\<forall>s \<in> set shorts. length s < 9" "usable cr cfg pass"
  shows "(case run (ask_for_password cr cfg (length shorts + Suc fuel) tr c)
        (on Device (0x21 # ys) (map ABytes shorts @ ABytes pass # T) []) of
      (r, s') \<Rightarrow> r = Ret (Inr (advance 32 c)) \<and> inbox s' Device = ys \<and> tape s' = T \<and>
        sent Device (trace s') = fst (crypt c (the (hash_password cr cfg (butlast pass)))))
   \<and> (case run (ask_for_password cr cfg (length shorts) tr c) (on Device I (map ABytes shorts @ T) []) of
      (r, s') \<Rightarrow> r = Halt OutOfFuel \<and> inbox s' Device = I \<and> tape s' = T \<and> sent Device (trace s') = [])"
proof
  show "case run (ask_for_password cr cfg (length shorts + Suc fuel) tr c)
        (on Device (0x21 # ys) (map ABytes shorts @ ABytes pass # T) []) of
      (r, s') \<Rightarrow> r = Ret (Inr (advance 32 c)) \<and> inbox s' Device = ys \<and> tape s' = T \<and>
        sent Device (trace s') = fst (crypt c (the (hash_password cr cfg (butlast pass))))"
    using on_shorts [OF assms(2), of cr cfg "Suc fuel" tr c Ret Device "0x21 # ys" "ABytes pass # T" "[]"]
      on_ask_for_password [OF assms(1,3), of fuel tr c Ret ys T "short_events tr shorts"]
    by (simp add: ask_events_def sealed_hash_def pass_hash_def butlast_conv_take)
  show "case run (ask_for_password cr cfg (length shorts) tr c) (on Device I (map ABytes shorts @ T) []) of
      (r, s') \<Rightarrow> r = Halt OutOfFuel \<and> inbox s' Device = I \<and> tape s' = T \<and> sent Device (trace s') = []"
    using on_shorts [OF assms(2), of cr cfg 0 tr c Ret Device I T "[]"] by simp
qed

theorem short_passphrases_asked_again_witness:
  "fst (run (ask_for_password toy_crypto \<lparr>luks_uuid = [], boot_device = [], encrypted_disk = [], salt = []\<rparr> 3
      True \<lparr>ks = (\<lambda>_. 0), cpos = 0\<rparr>)
      (on Device [0x21] [ABytes [], ABytes (replicate 8 0x61), ABytes (replicate 9 0x61)] [])) =
    Ret (Inr (advance 32 \<lparr>ks = (\<lambda>_. 0), cpos = 0\<rparr>))"
proof -
  let ?cfg = "\<lparr>luks_uuid = [], boot_device = [], encrypted_disk = [], salt = []\<rparr>"
  have "usable toy_crypto ?cfg (replicate 9 0x61)"
    by (simp add: usable_def hash_password_def toy_crypto_def)
  from short_passphrases_asked_again [OF toy_crypto_ok _ this, where shorts = "[[], replicate 8 0x61]" and fuel = 0
      and tr = True and c = "\<lparr>ks = (\<lambda>_. 0), cpos = 0\<rparr>" and ys = "[]" and T = "[]", THEN conjunct1]
  show ?thesis by (simp add: numeral_3_eq_3 split: prod.splits)
qed

subsection \<open>What the TKey is told\<close>

text \<open>How giving the key to cryptsetup can go.\<close>

datatype disk_run = NoSpawn | NoPipe | WriteFails | WaitFails | Exited "int option"

fun disk_answers :: "disk_run \<Rightarrow> ans list" where
  "disk_answers NoSpawn = [AErr]"
| "disk_answers NoPipe = [AOk, ANone]"
| "disk_answers WriteFails = [AOk, AOk, AErr]"
| "disk_answers WaitFails = [AOk, AOk, AOk, AErr]"
| "disk_answers (Exited code) = [AOk, AOk, AOk, ACode code]"

fun disk_outcome :: "disk_run \<Rightarrow> bytes \<times> host_err option" where
  "disk_outcome NoSpawn = ([], Some HostIOError)"
| "disk_outcome NoPipe = ([], Some PipeError)"
| "disk_outcome WriteFails = ([0x98], Some HostIOError)"
| "disk_outcome WaitFails = ([], Some HostIOError)"
| "disk_outcome (Exited code) = (case code of
     None \<Rightarrow> ([0x98], Some CryptsetupKilled)
   | Some n \<Rightarrow> if n = 0 then ([0x99], None) else ([0x98], Some CryptsetupErr))"

text \<open>
  Property C38. \<open>decrypt\<close> on every course of events with cryptsetup: what it returns and what it
  tells the TKey. The TKey hears DecryptionSuccess for exit code 0 only and DecryptionError
  for every other end of cryptsetup or a failed write of the key; when cryptsetup cannot be
  started or waited for, or has no stdin, it hears nothing and keeps waiting.
\<close>

theorem decrypt_outcomes:
  assumes "length sealed = 32"
  shows "case run (decrypt cfg c) (on Device sealed (disk_answers d) []) of
    (r, s') \<Rightarrow> sent Device (trace s') = fst (disk_outcome d) \<and>
      (case snd (disk_outcome d) of
         None \<Rightarrow> r = Ret (Inr (advance 32 c))
       | Some e \<Rightarrow> \<exists>c'. r = Ret (Inl (e, c')))"
  using assms
  by (cases d) (auto simp: decrypt_def on_simps Let_def crypt_def advance_def host_err_from_io_def split: option.split)

theorem decrypt_outcomes_witness:
  "sent Device (trace (snd (run (decrypt \<lparr>luks_uuid = [], boot_device = [], encrypted_disk = [], salt = []\<rparr>
     \<lparr>ks = (\<lambda>_. 0), cpos = 0\<rparr>) (on Device (zeros 32) (disk_answers (Exited None)) [])))) = [0x98]"
  using decrypt_outcomes [of "zeros 32", where d = "Exited None"
      and cfg = "\<lparr>luks_uuid = [], boot_device = [], encrypted_disk = [], salt = []\<rparr>"
      and c = "\<lparr>ks = (\<lambda>_. 0), cpos = 0\<rparr>"]
  by (simp split: prod.splits)

end
