(* ===== verification/Protocol.thy ===== *)
theory Protocol
  imports ClientSafety HostSafety
begin

text \<open>
  The message protocol between the client app and the programs that talk to it, as a state
  machine over the messages in both directions: their sizes, their order, and whose turn it is.
  \<open>says\<close> is the step relation; both sides follow it: the client app on what it reads and
  writes, whatever the host sends, and the host programs on what they write and read, whatever
  the TKey sends.
\<close>

subsection \<open>The protocol\<close>

text \<open>
  \<open>Boot\<close> is the time before the host has made its key. \<open>Hello k b\<close>: the TKey's nonce,
  encryption nonce and public key are 76 bytes, of which \<open>k\<close> have arrived, and \<open>b\<close> says
  whether the host's key has been sent, which may cross the TKey's. Then the host announces a
  signature (\<open>Announced\<close>) or a refusal, and the TKey gives its verdict. \<open>Idle n\<close>, \<open>Asked n\<close>,
  \<open>Judging n\<close>, \<open>Sealed m n\<close>: the TKey may ask for \<open>n\<close> more guesses, or has asked, got one, and is
  sending the key of which \<open>m\<close> bytes are missing. With none missing it is the host's turn to
  report. \<open>Over\<close> is after a success; \<open>GaveUp\<close> after the TKey reported that it cannot go on before
  the gate; \<open>Broken\<close> after a byte of the TKey that is no message of this protocol.
\<close>

datatype stage =
    Boot | Hello nat bool | Announced | Verdict | Idle nat | Asked nat | Judging nat
  | Sealed nat nat | Over | GaveUp | Broken

datatype message = ToTKey bytes | FromTKey bytes

definition verdicts :: "byte set" where
  "verdicts = {client_message_u8 GoodSig, dev_error_u8 Dev_MalformedSig, dev_error_u8 Dev_InvalidSig,
     dev_error_u8 Dev_BadPubkey}"

definition guess_errors :: "byte set" where
  "guess_errors = {dev_error_u8 Dev_Blake2, dev_error_u8 Dev_PassLen}"

inductive says :: "stage \<Rightarrow> message \<Rightarrow> stage \<Rightarrow> bool" where
  says_boot: "says Boot m Boot"
| says_hello: "k + length bs \<le> 76 \<Longrightarrow> says (Hello k b) (FromTKey bs) (Hello (k + length bs) b)"
| says_key: "44 \<le> k \<Longrightarrow> length bs = 32 \<Longrightarrow> says (Hello k False) (ToTKey bs) (Hello k True)"
| says_give_up: "b \<in> {0x14, 0x16} \<Longrightarrow> says (Hello 76 True) (FromTKey [b]) GaveUp"
| says_signed: "says (Hello 76 True) (ToTKey [0x97]) Announced"
| says_sig: "length bs = 64 \<Longrightarrow> says Announced (ToTKey bs) Verdict"
| says_refused: "b \<noteq> 0x97 \<Longrightarrow> says (Hello 76 True) (ToTKey [b]) Verdict"
| says_verdict: "b \<in> verdicts \<Longrightarrow> says Verdict (FromTKey [b]) (Idle 3)"
| says_no_verdict: "b \<notin> verdicts \<Longrightarrow> says Verdict (FromTKey [b]) Broken"
| says_ready: "says (Idle (Suc n)) (FromTKey [0x22]) (Asked n)"
| says_not_ready: "n = 0 \<or> b \<noteq> 0x22 \<Longrightarrow> says (Idle n) (FromTKey [b]) Broken"
| says_guess: "length bs = 32 \<Longrightarrow> says (Asked n) (ToTKey bs) (Judging n)"
| says_good: "says (Judging n) (FromTKey [0x21]) (Sealed 32 n)"
| says_error: "b \<in> guess_errors \<Longrightarrow> says (Judging n) (FromTKey [b]) (Idle n)"
| says_nonsense: "b \<notin> guess_errors \<Longrightarrow> b \<noteq> 0x21 \<Longrightarrow> says (Judging n) (FromTKey [b]) Broken"
| says_sealed: "bs \<noteq> [] \<Longrightarrow> length bs \<le> m \<Longrightarrow> says (Sealed m n) (FromTKey bs) (Sealed (m - length bs) n)"
| says_right: "says (Sealed 0 n) (ToTKey [0x99]) Over"
| says_wrong: "b \<noteq> 0x99 \<Longrightarrow> says (Sealed 0 n) (ToTKey [b]) (Idle n)"

inductive_cases says_cases:
  "says Boot m t" "says (Hello k b) m t" "says Announced m t" "says Verdict m t" "says (Idle n) m t"
  "says (Asked n) m t" "says (Judging n) m t" "says (Sealed m' n) m t" "says Over m t" "says GaveUp m t"
  "says Broken m t"

inductive_simps says_simps:
  "says Boot m t" "says Announced m t" "says Verdict (ToTKey bs) t" "says (Idle n) (ToTKey bs) t"
  "says (Asked n) m t" "says (Judging n) (ToTKey bs) t" "says (Sealed m' n) (ToTKey bs) t" "says Over m t"
  "says GaveUp m t" "says Broken m t"

code_pred (modes: i \<Rightarrow> i \<Rightarrow> o \<Rightarrow> bool) says .

text \<open>Nobody speaks out of turn: after each of these stages only one side can go on.\<close>

lemma tkey_waits: "s \<in> {Announced, Asked n, Sealed 0 n} \<Longrightarrow> \<not> says s (FromTKey bs) t"
  by (auto elim: says_cases)

lemma host_waits: "s \<in> {Verdict, Idle n, Judging n, Sealed (Suc m) n, Over, GaveUp, Broken} \<Longrightarrow> \<not> says s (ToTKey bs) t"
  by (auto simp: says_simps)

text \<open>Events that are not messages leave the stage; drawing the host's key ends \<open>Boot\<close>.\<close>

definition key_drawn :: "event \<Rightarrow> bool" where
  "key_drawn e = (case e of Got a x \<Rightarrow> (case a of GetRandom n \<Rightarrow> x \<noteq> AErr | _ \<Rightarrow> False) | _ \<Rightarrow> False)"

inductive follows :: "(event \<Rightarrow> message option) \<Rightarrow> stage \<Rightarrow> event list \<Rightarrow> stage \<Rightarrow> bool" for msg where
  follows_Nil: "follows msg s [] s"
| follows_msg: "msg e = Some m \<Longrightarrow> says s m t \<Longrightarrow> follows msg t h u \<Longrightarrow> follows msg s (e # h) u"
| follows_key: "msg e = None \<Longrightarrow> key_drawn e \<Longrightarrow> follows msg (Hello 44 False) h u \<Longrightarrow> follows msg Boot (e # h) u"
| follows_other: "msg e = None \<Longrightarrow> key_drawn e \<longrightarrow> s \<noteq> Boot \<Longrightarrow> follows msg s h u \<Longrightarrow> follows msg s (e # h) u"

text \<open>The messages as the client app and as a program of the host sees them.\<close>

definition hears :: "event \<Rightarrow> message option" where
  "hears e = (case e of In p bs \<Rightarrow> Some (ToTKey bs) | Out p bs \<Rightarrow> Some (FromTKey bs) | _ \<Rightarrow> None)"

definition tells :: "event \<Rightarrow> message option" where
  "tells e = (case e of
     Out p bs \<Rightarrow> if p = Device then Some (ToTKey bs) else None
   | In p bs \<Rightarrow> if p = Device then Some (FromTKey bs) else None
   | _ \<Rightarrow> None)"

subsection \<open>The monitor\<close>

definition next_stage :: "stage \<Rightarrow> message \<Rightarrow> stage option" where
  "next_stage s m = (case m of
     FromTKey bs \<Rightarrow> (case s of
       Boot \<Rightarrow> Some Boot
     | Hello k b \<Rightarrow> if k + length bs \<le> 76 then Some (Hello (k + length bs) b)
         else if b \<and> k = 76 \<and> (bs = [0x14] \<or> bs = [0x16]) then Some GaveUp else None
     | Verdict \<Rightarrow> if length bs = 1 then Some (if bs ! 0 \<in> verdicts then Idle 3 else Broken) else None
     | Idle n \<Rightarrow> if length bs = 1 then Some (if 0 < n \<and> bs ! 0 = 0x22 then Asked (n - 1) else Broken) else None
     | Judging n \<Rightarrow> if length bs = 1 then Some (if bs ! 0 = 0x21 then Sealed 32 n
         else if bs ! 0 \<in> guess_errors then Idle n else Broken) else None
     | Sealed m n \<Rightarrow> if bs \<noteq> [] \<and> length bs \<le> m then Some (Sealed (m - length bs) n) else None
     | _ \<Rightarrow> None)
   | ToTKey bs \<Rightarrow> (case s of
       Boot \<Rightarrow> Some Boot
     | Hello k b \<Rightarrow> if \<not> b then (if 44 \<le> k \<and> length bs = 32 then Some (Hello k True) else None)
         else if k = 76 \<and> length bs = 1 then Some (if bs ! 0 = 0x97 then Announced else Verdict) else None
     | Announced \<Rightarrow> if length bs = 64 then Some Verdict else None
     | Asked n \<Rightarrow> if length bs = 32 then Some (Judging n) else None
     | Sealed m n \<Rightarrow> if m = 0 \<and> length bs = 1 then Some (if bs ! 0 = 0x99 then Over else Idle n) else None
     | _ \<Rightarrow> None))"

lemma length_1_conv: "length bs = 1 \<longleftrightarrow> (\<exists>b. bs = [b])"
  by (auto simp: length_Suc_conv)

lemma next_stage_says: "next_stage s m = Some t \<Longrightarrow> says s m t"
  by (cases s; cases m) (auto simp: next_stage_def length_Suc_conv gr0_conv_Suc intro: says.intros split: if_splits)

lemma says_next_stage: "says s m t \<Longrightarrow> next_stage s m = Some t"
  by (induction rule: says.induct) (auto simp: next_stage_def guess_errors_def split: message.split)

text \<open>The messages determine the stages.\<close>

lemma says_functional: "says s m t \<Longrightarrow> says s m u \<Longrightarrow> t = u"
  by (drule says_next_stage)+ simp

definition track :: "(event \<Rightarrow> message option) \<Rightarrow> stage \<Rightarrow> event \<Rightarrow> stage option" where
  "track msg s e = (case msg e of
     Some m \<Rightarrow> next_stage s m
   | None \<Rightarrow> Some (if key_drawn e \<and> s = Boot then Hello 44 False else s))"

lemma track_follows: "mfold (track msg) s h = Some t \<Longrightarrow> follows msg s h t"
proof (induction h arbitrary: s)
  case (Cons e h)
  then obtain u where u: "track msg s e = Some u" "mfold (track msg) u h = Some t"
    by (auto split: option.splits)
  with Cons.IH [OF u(2)] show ?case
    by (auto simp: track_def intro: follows.intros next_stage_says split: option.splits if_splits)
qed (simp add: follows_Nil)

lemma allows_track:
  "allows (track msg) s e P \<longleftrightarrow> (case msg e of
     Some m \<Rightarrow> (case next_stage s m of Some t \<Rightarrow> P t | None \<Rightarrow> False)
   | None \<Rightarrow> P (if key_drawn e \<and> s = Boot then Hello 44 False else s))"
  by (auto simp: allows_iff track_def split: option.splits)

text \<open>A monitor that also rejects what is no message of the protocol.\<close>

definition strict :: "(event \<Rightarrow> message option) \<Rightarrow> stage \<Rightarrow> event \<Rightarrow> stage option" where
  "strict msg s e = (case track msg s e of Some t \<Rightarrow> if t = Broken then None else Some t | None \<Rightarrow> None)"

lemma strict_follows: "mfold (strict msg) s h = Some t \<Longrightarrow> s \<noteq> Broken \<Longrightarrow> follows msg s h t \<and> t \<noteq> Broken"
proof -
  have "mfold (strict msg) s h = Some t \<Longrightarrow> s \<noteq> Broken \<Longrightarrow> mfold (track msg) s h = Some t \<and> t \<noteq> Broken"
    by (induction h arbitrary: s) (auto simp: strict_def split: option.splits if_splits)
  then show "mfold (strict msg) s h = Some t \<Longrightarrow> s \<noteq> Broken \<Longrightarrow> follows msg s h t \<and> t \<noteq> Broken"
    using track_follows by blast
qed

lemma allows_strict: "allows (strict msg) s e P \<longleftrightarrow> allows (track msg) s e (\<lambda>t. t \<noteq> Broken \<and> P t)"
  by (auto simp: allows_iff strict_def split: option.splits)

lemma next_stage_simps [simp]:
  "next_stage (Hello k False) (ToTKey bs) = (if 44 \<le> k \<and> length bs = 32 then Some (Hello k True) else None)"
  "k + length bs \<le> 76 \<Longrightarrow> next_stage (Hello k h) (FromTKey bs) = Some (Hello (k + length bs) h)"
  "next_stage (Hello 76 True) (FromTKey [b]) = (if b = 0x14 \<or> b = 0x16 then Some GaveUp else None)"
  "next_stage (Hello 76 True) (ToTKey bs) =
     (if length bs = 1 then Some (if bs ! 0 = 0x97 then Announced else Verdict) else None)"
  "next_stage Announced (ToTKey bs) = (if length bs = 64 then Some Verdict else None)"
  "next_stage Verdict (FromTKey [b]) = Some (if b \<in> verdicts then Idle 3 else Broken)"
  "next_stage (Idle n) (FromTKey [b]) = Some (if 0 < n \<and> b = 0x22 then Asked (n - 1) else Broken)"
  "next_stage (Asked n) (ToTKey bs) = (if length bs = 32 then Some (Judging n) else None)"
  "next_stage (Judging n) (FromTKey [b]) =
     Some (if b = 0x21 then Sealed 32 n else if b \<in> guess_errors then Idle n else Broken)"
  "bs \<noteq> [] \<Longrightarrow> length bs \<le> l \<Longrightarrow> next_stage (Sealed l n) (FromTKey bs) = Some (Sealed (l - length bs) n)"
  "next_stage (Sealed 0 n) (ToTKey bs) =
     (if length bs = 1 then Some (if bs ! 0 = 0x99 then Over else Idle n) else None)"
  by (auto simp: next_stage_def)

lemma next_stage_key [simp]:
  "length bs = 32 \<Longrightarrow> next_stage (Sealed 32 n) (FromTKey bs) = Some (Sealed 0 n)"
  by (auto simp: next_stage_def)

lemma next_stage_Boot [simp]: "next_stage Boot msg = Some Boot"
  by (cases msg) (simp_all add: next_stage_def)

subsection \<open>The client app\<close>

lemma allows_hears [simp]:
  "allows (strict hears) s (In p bs) P \<longleftrightarrow>
     (case next_stage s (ToTKey bs) of Some t \<Rightarrow> t \<noteq> Broken \<and> P t | None \<Rightarrow> False)"
  "allows (strict hears) s (Out p bs) P \<longleftrightarrow>
     (case next_stage s (FromTKey bs) of Some t \<Rightarrow> t \<noteq> Broken \<and> P t | None \<Rightarrow> False)"
  "s \<noteq> Broken \<Longrightarrow> allows (strict hears) s (InFail p) P \<longleftrightarrow> P s"
  "s \<noteq> Broken \<Longrightarrow> allows (strict hears) s (Did a) P \<longleftrightarrow> P s"
  "s \<noteq> Broken \<Longrightarrow> s \<noteq> Boot \<Longrightarrow> allows (strict hears) s (Got a x) P \<longleftrightarrow> P s"
  by (simp_all add: allows_strict allows_track hears_def key_drawn_def)

abbreviation hears_wp :: "'a proc \<Rightarrow> ('a \<Rightarrow> stage \<Rightarrow> bool) \<Rightarrow> stage \<Rightarrow> bool" where
  "hears_wp \<equiv> wps (strict hears)"

text \<open>The client app's primitives; its serial line does not fail.\<close>

lemma wps_client [wps_simps]:
  "wps M (random n) Qb q \<longleftrightarrow> (\<forall>bs. length bs = n \<longrightarrow> allows M q (Got (Random n) (ABytes bs)) (Qb bs))"
  "wps M read_cdi Qb q \<longleftrightarrow> (\<forall>bs. length bs = 32 \<longrightarrow> allows M q (Got ReadCdi (ABytes bs)) (Qb bs))"
  "wps M (read_into n) Qb q \<longleftrightarrow>
     (\<forall>bs. length bs = n \<longrightarrow> allows M q (In Host bs) (Qb bs)) \<and> allows M q (InFail Host) (\<lambda>_. True)"
  "wps M (apply_keystream c d) Qc q \<longleftrightarrow> allows M q (Did (Keystream (cpos c) (length d))) (Qc (crypt c d))"
  "wps M dev_panic Q q"
  by (auto simp: random_def read_cdi_def read_into_def apply_keystream_def dev_panic_def wps_simps wps.simps)

lemma hears_write_u8:
  "hears_wp (write_u8 b) Q s \<longleftrightarrow> (case next_stage s (FromTKey [b]) of Some t \<Rightarrow> t \<noteq> Broken \<and> Q () t | None \<Rightarrow> False)"
  by (simp add: write_u8_def wps.simps)

lemma hears_write_slice:
  "k + length bs \<le> 76 \<Longrightarrow> hears_wp (write_u8_slice bs) Q (Hello k b) \<longleftrightarrow> Q () (Hello (k + length bs) b)"
  "length bs \<le> m \<Longrightarrow> hears_wp (write_u8_slice bs) Q (Sealed m n) \<longleftrightarrow> Q () (Sealed (m - length bs) n)"
  by (induction bs arbitrary: k m) (simp_all add: wps_simps hears_write_u8)

lemma hears_attempt:
  assumes "crypto_ok cr"
  shows "hears_wp (client_attempt cr c) (\<lambda>(b, c') t. if b then t = Over else t = Idle n) (Idle (Suc n))"
  by (auto simp: client_attempt_def wps_simps hears_write_u8 hears_write_slice Let_def case_prod_beta
      guess_errors_def crypt_def keystream_at_def crypto_okD [OF assms])

lemma hears_loop:
  assumes "crypto_ok cr"
  shows "hears_wp (client_loop cr c n) (\<lambda>_ t. t = Over) (Idle (3 - n))"
proof (induction "3 - n" arbitrary: n c)
  case 0
  then show ?case by (subst client_loop.simps) simp
next
  case (Suc m)
  then have n: "\<not> 3 \<le> n" "m = 3 - (n + 1)" by simp_all
  show ?case
    unfolding Suc.hyps(2) [symmetric]
    by (subst client_loop.simps)
       (use n(2) in \<open>auto simp: n(1) intro!: wps_bndI [OF hears_attempt [OF assms]] Suc.hyps(1) [OF n(2), simplified]
          split: if_splits\<close>)
qed

lemma hears_main:
  assumes "crypto_ok cr"
  shows "hears_wp (client_main cr key_bytes) (\<lambda>_ _. True) (Hello 0 False)"
proof -
  have loop: "hears_wp (client_loop cr c 0) (\<lambda>_. hears_wp client_epilogue (\<lambda>_ _. True)) (Idle 3)" for c
    by (rule wps_mono [OF hears_loop [OF assms, of c 0, simplified]]) (simp add: client_epilogue_def wps_simps)
  show ?thesis
    by (auto simp: client_main_def wps_simps Let_def verify_sig_def judge_sig_def loop hears_write_u8
        hears_write_slice verdicts_def crypto_okD [OF assms] split: option.split)
qed



subsection \<open>The programs of the host\<close>

lemma allows_tells [simp]:
  "allows (track tells) s (InFail p) P \<longleftrightarrow> P s" "allows (track tells) s (Did a) P \<longleftrightarrow> P s"
  "allows (track tells) s (Out p bs) P \<longleftrightarrow>
     (if p = Device then (case next_stage s (ToTKey bs) of Some t \<Rightarrow> P t | None \<Rightarrow> False) else P s)"
  "allows (track tells) s (In p bs) P \<longleftrightarrow>
     (if p = Device then (case next_stage s (FromTKey bs) of Some t \<Rightarrow> P t | None \<Rightarrow> False) else P s)"
  "allows (track tells) s (Got a x) P \<longleftrightarrow> P (if key_drawn (Got a x) \<and> s = Boot then Hello 44 False else s)"
  by (simp_all add: allows_track tells_def key_drawn_def)

lemma key_drawn_simps [simp]:
  "key_drawn (Got (GetRandom n) x) \<longleftrightarrow> x \<noteq> AErr"
  "\<not> key_drawn (Got (Tpm c) x)" "\<not> key_drawn (Got (Tty y) x)" "\<not> key_drawn (Got Fionread x)"
  "\<not> key_drawn (Got (Child d) x)" "\<not> key_drawn (Got (CreateDirAll p) x)" "\<not> key_drawn (Got (Status p as) x)"
  "\<not> key_drawn (Got (ReadFile p) x)" "\<not> key_drawn (Got (Output p as) x)"
  "\<not> key_drawn (Got PromptPassword x)" "\<not> key_drawn (Got ReadLine x)" "\<not> key_drawn (Got (Flush q) x)"
  by (simp_all add: key_drawn_def)












text \<open>Unlocking.\<close>

definition asked_stage :: "nat \<Rightarrow> (client_error \<times> cipher) + cipher \<Rightarrow> stage \<Rightarrow> bool" where
  "asked_stage n r t = (case r of Inr _ \<Rightarrow> t = Sealed 32 n | Inl (e, _) \<Rightarrow> e = PassLen \<or> e = Blake2 \<longrightarrow> t = Idle n)"

lemma asked_stage_simps [simp]:
  "asked_stage n (Inr c) t \<longleftrightarrow> t = Sealed 32 n"
  "asked_stage n (Inl (e, c)) t \<longleftrightarrow> (e = PassLen \<or> e = Blake2 \<longrightarrow> t = Idle n)"
  by (simp_all add: asked_stage_def)



text \<open>A program that ends with Failure has told the TKey about every key.\<close>

definition told :: "box_error + exit_code \<Rightarrow> stage \<Rightarrow> bool" where
  "told r t \<longleftrightarrow> r = Inr Failure \<longrightarrow> (\<exists>n. t = Idle n)"

lemma told_simps [simp]: "told (Inl e) t" "told (Inr Success) t" "told (Inr Failure) (Idle n)"
  by (simp_all add: told_def)















subsection \<open>Properties\<close>

text \<open>
  Property C17. The client app keeps to the protocol in both directions, whatever the host
  sends: it sends its nonce, encryption nonce and public key (76 bytes), reads the host's key
  of 32 bytes and one status byte, and a signature of 64 bytes if and only if that byte was
  TpmSigned. It answers with a verdict and then asks for at most three guesses of 32 bytes. To
  each it answers with GoodPass and a key of 32 bytes, after which, and only then, it reads one
  byte of result, or with an error byte, after which it reads no result. After a success it
  neither asks nor reads. It gives up before the gate only with BadPubkey or ChaChaInit, and
  never sends a byte that is no message of the protocol. The serial line is taken not to fail on
  the TKey's side, where writing has no error.
\<close>

theorem device_follows_protocol:
  assumes "crypto_ok cr" "writable s"
  shows "\<exists>t. follows hears (Hello 0 False) (trace (snd (run (client_main cr key_bytes :: 'a proc) (s\<lparr>trace := []\<rparr>)))) t \<and>
    t \<noteq> Broken"
proof -
  have "writable (s\<lparr>trace := []\<rparr>)" using assms(2) by (simp add: writable_def)
  from wps_sound [OF hears_main [where 'a = 'a, OF assms(1)] this prod.collapse [symmetric]] obtain t where
    "mfold (strict hears) (Hello 0 False) (trace (snd (run (client_main cr key_bytes :: 'a proc) (s\<lparr>trace := []\<rparr>)))) = Some t"
    by fastforce
  from strict_follows [OF this] show ?thesis by auto
qed

theorem device_follows_protocol_witness:
  "\<exists>t. follows hears (Hello 0 False) (trace (snd (run (client_main toy_crypto (zeros 91)
     :: unit proc) (start (\<lambda>_. zeros 200) [ABytes (zeros 32), ABytes (zeros 12), ABytes (zeros 32)])))) t"
proof -
  let ?s = "start (\<lambda>_. zeros 200) [ABytes (zeros 32), ABytes (zeros 12), ABytes (zeros 32)]"
  have "writable ?s" "?s\<lparr>trace := []\<rparr> = ?s" by (simp_all add: writable_def start_def)
  with device_follows_protocol [OF toy_crypto_ok, of ?s "zeros 91"] show ?thesis by auto
qed



end
