(* ===== verification/Startup.thy ===== *)
theory Startup
  imports Prelude
begin

text \<open>
  The entry point of the client app: the RISC-V assembly of \<open>global_asm!\<close> in
  client/src/main.rs, which clears the registers the firmware left behind, sets the stack up,
  clears the BSS section and calls \<open>main\<close>. The instructions it uses are a small machine: a
  register file, a memory of bytes and the code still to run. Addresses of symbols come from the
  linker (\<open>lk\<close>). The machine runs until it calls a function or traps; a run that did
  neither would be \<open>None\<close>.
\<close>

subsection \<open>The machine\<close>

type_synonym word32 = "32 word"
type_synonym reg = "5 word"

text \<open>
  The lines of the program. \<open>Sw src off base\<close> is \<open>sw src, off(base)\<close>; \<open>li\<close>, \<open>la\<close> and \<open>call\<close>
  are pseudo-instructions of the assembler and stand for what they expand to.
\<close>

datatype line =
    Label string
  | Li reg word32
  | La reg string
  | Bge reg reg string
  | Blt reg reg string
  | Sw reg word32 reg
  | Addi reg reg word32
  | Call string

record machine =
  regs :: "reg \<Rightarrow> word32"
  mem :: "word32 \<Rightarrow> byte"

datatype trap = Misaligned | EndOfCode | NoLabel

text \<open>Register \<open>x0\<close> reads as zero and ignores writes. A store is little-endian and aligned.\<close>

definition get_reg :: "machine \<Rightarrow> reg \<Rightarrow> word32" where
  "get_reg m r = (if r = 0 then 0 else regs m r)"

definition set_reg :: "reg \<Rightarrow> word32 \<Rightarrow> machine \<Rightarrow> machine" where
  "set_reg r v m = (if r = 0 then m else m\<lparr>regs := (regs m)(r := v)\<rparr>)"

definition store32 :: "word32 \<Rightarrow> word32 \<Rightarrow> machine \<Rightarrow> machine" where
  "store32 a v m = m\<lparr>mem := (mem m)(a := ucast v, a + 1 := ucast (drop_bit 8 v),
     a + 2 := ucast (drop_bit 16 v), a + 3 := ucast (drop_bit 24 v))\<rparr>"

text \<open>A jump goes to the code after the label; \<open>bge\<close> and \<open>blt\<close> compare signed numbers.\<close>

fun goto_label :: "string \<Rightarrow> line list \<Rightarrow> line list option" where
  "goto_label l [] = None"
| "goto_label l (x # xs) = (if x = Label l then Some xs else goto_label l xs)"

datatype outcome =
    Running "line list" machine
  | Calling string machine
  | Trapped trap

definition branch :: "bool \<Rightarrow> string \<Rightarrow> line list \<Rightarrow> line list \<Rightarrow> machine \<Rightarrow> outcome" where
  "branch b l prog k m = (if b then
     (case goto_label l prog of None \<Rightarrow> Trapped NoLabel | Some k' \<Rightarrow> Running k' m)
   else Running k m)"

fun step :: "(string \<Rightarrow> word32) \<Rightarrow> line list \<Rightarrow> line list \<Rightarrow> machine \<Rightarrow> outcome" where
  "step lk prog [] m = Trapped EndOfCode"
| "step lk prog (Label l # k) m = Running k m"
| "step lk prog (Li r v # k) m = Running k (set_reg r v m)"
| "step lk prog (La r s # k) m = Running k (set_reg r (lk s) m)"
| "step lk prog (Bge a b l # k) m = branch (sint (get_reg m b) \<le> sint (get_reg m a)) l prog k m"
| "step lk prog (Blt a b l # k) m = branch (sint (get_reg m a) < sint (get_reg m b)) l prog k m"
| "step lk prog (Sw src off base # k) m =
     (let a = get_reg m base + off in
      if 4 dvd unat a then Running k (store32 a (get_reg m src) m) else Trapped Misaligned)"
| "step lk prog (Addi r s i # k) m = Running k (set_reg r (get_reg m s + i) m)"
| "step lk prog (Call f # k) m = Calling f m"

partial_function (option)
  exec :: "(string \<Rightarrow> word32) \<Rightarrow> line list \<Rightarrow> line list \<Rightarrow> machine \<Rightarrow> (trap + string \<times> machine) option" where
  "exec lk prog code m =
     (case step lk prog code m of
        Running code' m' \<Rightarrow> exec lk prog code' m'
      | Calling f m' \<Rightarrow> Some (Inr (f, m'))
      | Trapped t \<Rightarrow> Some (Inl t))"

text \<open>The ABI names the program uses.\<close>

abbreviation "zero_reg \<equiv> (0 :: reg)"
abbreviation "sp \<equiv> (2 :: reg)"
abbreviation "a0 \<equiv> (10 :: reg)"
abbreviation "a1 \<equiv> (11 :: reg)"

subsection \<open>The program\<close>

definition start_code :: "line list" where
  "start_code = [
     Label ''_start'',
     Li 1 0, Li 2 0, Li 3 0, Li 4 0, Li 5 0, Li 6 0, Li 7 0, Li 8 0,
     Li 9 0, Li 10 0, Li 11 0, Li 12 0, Li 13 0, Li 14 0, Li 15 0, Li 16 0,
     Li 17 0, Li 18 0, Li 19 0, Li 20 0, Li 21 0, Li 22 0, Li 23 0, Li 24 0,
     Li 25 0, Li 26 0, Li 27 0, Li 28 0, Li 29 0, Li 30 0, Li 31 0,
     La sp ''_stack_start'',
     La a0 ''_sbss'',
     La a1 ''_ebss'',
     Bge a0 a1 ''end_init_bss'',
     Label ''loop_init_bss'',
     Sw zero_reg 0 a0,
     Addi a0 a0 4,
     Blt a0 a1 ''loop_init_bss'',
     Label ''end_init_bss'',
     Call ''main'']"

definition start :: "(string \<Rightarrow> word32) \<Rightarrow> machine \<Rightarrow> (trap + string \<times> machine) option" where
  "start lk m = exec lk start_code start_code m"

subsection \<open>Running it\<close>

lemma exec_lines:
  "exec lk prog [] m = Some (Inl EndOfCode)"
  "exec lk prog (Label l # k) m = exec lk prog k m"
  "exec lk prog (Li r v # k) m = exec lk prog k (set_reg r v m)"
  "exec lk prog (La r s # k) m = exec lk prog k (set_reg r (lk s) m)"
  "exec lk prog (Addi r q i # k) m = exec lk prog k (set_reg r (get_reg m q + i) m)"
  "exec lk prog (Call f # k) m = Some (Inr (f, m))"
  by (subst exec.simps, simp)+

lemma exec_sw:
  "4 dvd unat (get_reg m base + off) \<Longrightarrow> exec lk prog (Sw src off base # k) m =
   exec lk prog k (store32 (get_reg m base + off) (get_reg m src) m)"
  by (subst exec.simps) (simp add: Let_def)

lemma exec_branch:
  "goto_label l prog = Some k' \<Longrightarrow> exec lk prog (Bge a b l # k) m =
     (if sint (get_reg m b) \<le> sint (get_reg m a) then exec lk prog k' m else exec lk prog k m)"
  "goto_label l prog = Some k' \<Longrightarrow> exec lk prog (Blt a b l # k) m =
     (if sint (get_reg m a) < sint (get_reg m b) then exec lk prog k' m else exec lk prog k m)"
  by (subst exec.simps, simp add: branch_def)+

lemma get_set_reg [simp]: "get_reg (set_reg r v m) q = (if q = r \<and> r \<noteq> 0 then v else get_reg m q)"
  by (simp add: get_reg_def set_reg_def)

lemma get_reg_store [simp]: "get_reg (store32 a v m) r = get_reg m r"
  by (simp add: get_reg_def store32_def)

lemma mem_set_reg [simp]: "mem (set_reg r v m) = mem m"
  by (simp add: set_reg_def)

text \<open>The code from the loop on, and where the labels lead.\<close>

definition end_code :: "line list" where
  "end_code = [Call ''main'']"

definition loop_code :: "line list" where
  "loop_code = [Sw zero_reg 0 a0, Addi a0 a0 4, Blt a0 a1 ''loop_init_bss'',
     Label ''end_init_bss'', Call ''main'']"

lemma labels:
  "goto_label ''loop_init_bss'' start_code = Some loop_code"
  "goto_label ''end_init_bss'' start_code = Some end_code"
  by (simp_all add: start_code_def loop_code_def end_code_def)

text \<open>Registers are numbered 0 to 31.\<close>

lemma reg_cases: "(r :: reg) \<in> {0,1,2,3,4,5,6,7,8,9,10,11,12,13,14,15,16,17,18,19,20,21,22,23,24,25,
  26,27,28,29,30,31}"
proof -
  have "unat r \<in> set [0..<32]" using unsigned_less [of r, where ?'a = nat] by simp
  then have "r \<in> of_nat ` set [0..<32]" by (metis image_eqI of_nat_unat ucast_id)
  then show ?thesis by (simp add: upt_rec)
qed

subsection \<open>The loop over the BSS\<close>

text \<open>\<open>cleared lo n f\<close> is the memory \<open>f\<close> with \<open>n\<close> zero bytes from \<open>lo\<close> on.\<close>

definition cleared :: "word32 \<Rightarrow> nat \<Rightarrow> (word32 \<Rightarrow> byte) \<Rightarrow> word32 \<Rightarrow> byte" where
  "cleared lo n f a = (if unat lo \<le> unat a \<and> unat a < unat lo + n then 0 else f a)"

lemma cleared_0 [simp]: "cleared lo 0 f = f"
  by (rule ext) (auto simp: cleared_def)

lemma unat_plus: "unat (w :: word32) + n < 2 ^ 32 \<Longrightarrow> unat (w + of_nat n) = unat w + n"
  by (simp add: unat_word_ariths unat_of_nat)

lemma store_zero:
  assumes "unat w + 4 < 2 ^ 32"
  shows "mem (store32 w 0 m) = cleared w 4 (mem m)"
proof (rule ext)
  fix a
  have u: "unat (w + 1) = unat w + 1" "unat (w + 2) = unat w + 2" "unat (w + 3) = unat w + 3"
    using unat_plus [of w 1] unat_plus [of w 2] unat_plus [of w 3] assms by simp_all
  have "unat w \<le> unat a \<and> unat a < unat w + 4 \<longleftrightarrow> a = w \<or> a = w + 1 \<or> a = w + 2 \<or> a = w + 3"
    unfolding word_unat_eq_iff u by linarith
  then show "mem (store32 w 0 m) a = cleared w 4 (mem m) a"
    by (auto simp: cleared_def store32_def)
qed

lemma cleared_cleared:
  "unat (v :: word32) = unat w + n \<Longrightarrow> cleared v k (cleared w n f) = cleared w (n + k) f"
  by (rule ext) (auto simp: cleared_def)

text \<open>
  From the loop label on, with \<open>a0\<close> below \<open>a1\<close>, the loop clears whole words until \<open>a0\<close> has
  reached \<open>a1\<close>, and only then leaves for the call.
\<close>

lemma loop_runs:
  assumes "unat (get_reg m a1) = unat (get_reg m a0) + d" "0 < d" "4 dvd unat (get_reg m a0)"
    and "unat (get_reg m a1) + 3 < 2 ^ 31"
  shows "\<exists>m'. exec lk start_code loop_code m = Some (Inr (''main'', m')) \<and>
    (\<forall>r. get_reg m' r = (if r = a0 then get_reg m a0 + of_nat ((d + 3) div 4 * 4) else get_reg m r)) \<and>
    mem m' = cleared (get_reg m a0) ((d + 3) div 4 * 4) (mem m)"
  using assms
proof (induction d arbitrary: m rule: less_induct)
  case (less d)
  let ?w = "get_reg m a0"
  let ?m = "set_reg a0 (?w + 4) (store32 ?w 0 m)"
  have u: "unat (?w + 4) = unat ?w + 4" and a: "get_reg ?m a0 = ?w + 4" "get_reg ?m a1 = get_reg m a1"
    using unat_plus [of ?w 4] less.prems by simp_all
  have mem4: "mem (store32 ?w 0 m) = cleared ?w 4 (mem m)" using store_zero [of ?w m] less.prems by simp
  have signed: "sint (?w + 4) < sint (get_reg m a1) \<longleftrightarrow> 4 < d"
    using less.prems u by (simp add: sint_below)
  have once: "exec lk start_code loop_code m = (if 4 < d then exec lk start_code loop_code ?m
      else Some (Inr (''main'', ?m)))"
    using less.prems signed
    by (subst loop_code_def) (simp add: exec_sw exec_lines exec_branch labels get_reg_def [of m 0])
  show ?case
  proof (cases "4 < d")
    case True
    have n: "(d + 3) div 4 * 4 = 4 + (d - 4 + 3) div 4 * 4"
      using div_add_self2 [of 4 "d - 4 + 3"] True by (simp add: add.commute)
    obtain m' where m': "exec lk start_code loop_code ?m = Some (Inr (''main'', m'))"
      "\<And>r. get_reg m' r = (if r = a0 then get_reg ?m a0 + of_nat ((d - 4 + 3) div 4 * 4) else get_reg ?m r)"
      "mem m' = cleared (get_reg ?m a0) ((d - 4 + 3) div 4 * 4) (mem ?m)"
      using less.IH [of "d - 4" ?m] True less.prems u unfolding a by auto
    show ?thesis unfolding once n
      using True m' by (auto simp: mem4 cleared_cleared [OF u])
  next
    case False
    then have n: "(d + 3) div 4 * 4 = 4"
      using div_nat_eqI [of 4 1 "d + 3"] less.prems by simp
    show ?thesis unfolding once n using False mem4 by simp
  qed
qed

subsection \<open>What the start code does\<close>

text \<open>The lines before the loop, run to the first branch.\<close>

definition entered :: "(string \<Rightarrow> word32) \<Rightarrow> machine \<Rightarrow> machine" where
  "entered lk m = m\<lparr>regs := \<lambda>r. if r = 0 then regs m 0 else if r = sp then lk ''_stack_start''
     else if r = a0 then lk ''_sbss'' else if r = a1 then lk ''_ebss'' else 0\<rparr>"

lemma entered_eq:
  "entered lk m = m\<lparr>regs := (regs m)(1 := 0, 2 := 0, 3 := 0, 4 := 0, 5 := 0, 6 := 0, 7 := 0,
    8 := 0, 9 := 0, 10 := 0, 11 := 0, 12 := 0, 13 := 0, 14 := 0, 15 := 0, 16 := 0, 17 := 0,
    18 := 0, 19 := 0, 20 := 0, 21 := 0, 22 := 0, 23 := 0, 24 := 0, 25 := 0, 26 := 0, 27 := 0,
    28 := 0, 29 := 0, 30 := 0, 31 := 0, sp := lk ''_stack_start'', a0 := lk ''_sbss'',
    a1 := lk ''_ebss'')\<rparr>" (is "_ = m\<lparr>regs := ?f\<rparr>")
proof -
  have "regs (entered lk m) r = ?f r" for r
    using reg_cases [of r] by (auto simp: entered_def)
  then have "regs (entered lk m) = ?f" by (rule ext)
  moreover have "entered lk m = m\<lparr>regs := regs (entered lk m)\<rparr>" by (simp add: entered_def)
  ultimately show ?thesis by metis
qed

lemma start_enters:
  "start lk m = (if sint (lk ''_ebss'') \<le> sint (lk ''_sbss'') then Some (Inr (''main'', entered lk m))
     else exec lk start_code loop_code (entered lk m))"
  unfolding start_def entered_eq
  by (subst (2) start_code_def)
    (simp add: exec_lines exec_branch labels set_reg_def get_reg_def loop_code_def end_code_def)

lemma get_reg_entered: "get_reg (entered lk m) r = (if r = sp then lk ''_stack_start''
  else if r = a0 then lk ''_sbss'' else if r = a1 then lk ''_ebss'' else 0)"
  by (simp add: entered_def get_reg_def)

lemma mem_entered: "mem (entered lk m) = mem m"
  by (simp add: entered_def)

text \<open>The size of the BSS section, rounded up to whole words.\<close>

definition bss_bytes :: "(string \<Rightarrow> word32) \<Rightarrow> nat" where
  "bss_bytes lk = (unat (lk ''_ebss'') - unat (lk ''_sbss'') + 3) div 4 * 4"

text \<open>
  Property C35. Whatever registers and memory the firmware leaves, the start code always reaches
  the call of \<open>main\<close>: with every register zero but the stack pointer, which is
  \<open>_stack_start\<close>, and \<open>a0\<close>, \<open>a1\<close>, which hold the end of the BSS; with the BSS, rounded up to
  whole words, zero; and with every other byte of memory as it was. An empty BSS is not touched.
  The linker script puts \<open>_sbss\<close> on a word and the section below 2 GiB, where the signed
  comparison of \<open>bge\<close> and \<open>blt\<close> is the comparison of addresses.
\<close>

theorem start_code_clears:
  assumes "4 dvd unat (lk ''_sbss'')" "unat (lk ''_sbss'') < 2 ^ 31" "unat (lk ''_ebss'') + 3 < 2 ^ 31"
  shows "\<exists>m'. start lk m = Some (Inr (''main'', m')) \<and>
    (\<forall>r. get_reg m' r = (if r = sp then lk ''_stack_start''
       else if r = a0 then lk ''_sbss'' + of_nat (bss_bytes lk)
       else if r = a1 then lk ''_ebss'' else 0)) \<and>
    (\<forall>a. mem m' a = (if unat (lk ''_sbss'') \<le> unat a \<and> unat a < unat (lk ''_sbss'') + bss_bytes lk
       then 0 else mem m a))"
proof (cases "unat (lk ''_ebss'') \<le> unat (lk ''_sbss'')")
  case True
  then have "start lk m = Some (Inr (''main'', entered lk m))" "bss_bytes lk = 0"
    using assms by (simp_all add: start_enters sint_le_below bss_bytes_def)
  then show ?thesis by (auto simp: get_reg_entered mem_entered)
next
  case False
  then have "start lk m = exec lk start_code loop_code (entered lk m)"
    using assms by (simp add: start_enters sint_le_below)
  then show ?thesis
    using loop_runs [of "entered lk m" "unat (lk ''_ebss'') - unat (lk ''_sbss'')" lk] False assms
    by (auto simp: get_reg_entered bss_bytes_def cleared_def mem_entered)
qed

text \<open>The layout of client/app.lds with a BSS of 24 bytes, and registers full of garbage.\<close>

definition app_lds :: "string \<Rightarrow> word32" where
  "app_lds s = (if s = ''_sbss'' then 0x4000F000 else if s = ''_ebss'' then 0x4000F018
     else if s = ''_stack_start'' then 0x40020000 else 0)"

theorem start_code_clears_witness:
  "\<exists>m'. start app_lds \<lparr>regs = \<lambda>_. 0xDEADBEEF, mem = \<lambda>_. 0xFF\<rparr> = Some (Inr (''main'', m')) \<and>
    get_reg m' 5 = 0 \<and> get_reg m' sp = 0x40020000 \<and> mem m' 0x4000F017 = 0 \<and> mem m' 0x4000F018 = 0xFF"
proof -
  have b: "bss_bytes app_lds = 24" by (simp add: bss_bytes_def app_lds_def)
  show ?thesis
    using start_code_clears [of app_lds "\<lparr>regs = \<lambda>_. 0xDEADBEEF, mem = \<lambda>_. 0xFF\<rparr>", unfolded b]
    by (auto simp: app_lds_def)
qed

end
