(* ===== verification/Spec2Isabelle.thy ===== *)
theory Spec2Isabelle
  imports ClientSafety HostSafety QubesSafety Session QubesSession Deadlock Reference Passphrase Protocol Startup
begin

text \<open>
  Verification library for tkey-tpm-luks: unlocking a LUKS2 disk with a TKey security key, a
  TPM and a passphrase.

  THE PROGRAM. The client app (client/src/main.rs) runs on the TKey. It sends a nonce, agrees
  on a key with the host by X25519, and waits for the TPM's ECDSA signature over the 108-byte
  challenge of the session. A valid signature opens it at once, an invalid or missing one only
  after a touch of the key; then it turns at most three encrypted passphrase hashes into
  encrypted keyfiles, BLAKE2s of the device secret (CDI) and the hash. The host library
  (host/src/lib.rs) loads the app through the TKey's firmware, lets the TPM sign the challenge
  under a PCR policy and sets up the ChaCha20 session. Three programs use it: the initramfs
  unlocker (host/src/main.rs), the enroller (host/src/bin/enroll.rs) and the enroller of a
  Qubes disposable VM (host/src/bin/qubes_enroll.rs). The last one has neither TPM nor disk; it
  talks over qrexec to verify in dom0 (host/src/bin/verify.rs), which has both.

  HOW CODE IS MODELLED. Every binary is a \<open>proc\<close> (Process): a tree whose nodes are the actions
  of the sequential code, reading and writing bytes of a peer, calls of libraries, operating
  system and user, which an environment answers, and effects such as zeroize, LED and sleep.
  \<open>Result\<close> is a sum (\<open>Inl\<close> the error), \<open>?\<close> with its \<open>From\<close> conversion is \<open>tryq\<close>, a panic is
  \<open>Halt\<close>. Answers range over the whole result type of each call (\<open>ans_ok\<close>): every call that
  can fail may fail. A session's cipher is its keystream and position; using it is an event.
  Integers whose width matters are words (Loader). The theories of components, with the code
  they translate:
    Wire: the status enums of both crates, \<open>as u8\<close>, \<open>TryFrom<u8>\<close>, \<open>From\<close>, \<open>Display\<close>
    Crypto: the cipher state and the challenge (client main.rs 129-133, lib.rs 446-450)
    Startup: the RISC-V start code of the app (\<open>global_asm\<close>), Client: the rest of
      client/src/main.rs and client/build.rs
    Tpm: \<open>verify\<close> of lib.rs;  Loader: \<open>load_app\<close> of lib.rs
    HostLib: \<open>Tkey::new\<close>, \<open>check_status\<close>, \<open>get_chacha20_cipher\<close>, \<open>auth_with_tkey_and_tpm\<close>
    Unlock: host/src/main.rs;  Enroll: host/src/bin/enroll.rs
    Qubes: host/src/bin/qubes_enroll.rs and host/src/bin/verify.rs
  Prelude holds byte strings, array slices, big-endian and decimal numbers.

  THE CALCULI. Monitor: weakest preconditions of a program for an automaton over its events,
  proved once in the locales \<open>certified\<close> and \<open>guarded_program\<close>, and the same (\<open>wps\<close>) for a
  program whose writes do not fail; History: the projections of a
  trace that guards speak about. Network: programs connected by lines, one step at a time in
  any order; the locales \<open>commuting\<close> and \<open>terminating\<close>, interpreted on the network, give that
  every schedule is finite and leads to one end. Dialogue and Phases: how to compute that end
  for two programs that take turns, Script for any number of them. Peace: when two programs can never wait for each other.

  WHAT IS PROVED. ClientSafety, against every host: the CDI is used only behind the gate, at
  most three times with pauses, keystream is used once, and the values it zeroizes (CDI,
  keyfile, hashes) are wiped whenever the app waits. Reference: on every input the app sends exactly what a short reference function
  says. HostSafety, against every TKey, TPM, user and disk: trustworthy means signed by the
  TPM and accepted by the TKey; the trusting prompt is shown only then; the exit status and the
  message DecryptionSuccess tell what cryptsetup did; keystream is used once. Tpm, Loader and
  Wire: the policy, the outcome for every answer of the TPM, the digest, the framing and the
  codes in detail. QubesSafety: dom0 kills a
  slot only after adding a key, and the framing between VM and dom0, with the lengths at
  which it breaks. Passphrase: which entry is used. Protocol: both sides of the serial line
  keep to one message protocol, in which each knows whose turn it is. Startup: the app's start code reaches \<open>main\<close> with the registers
  and the BSS cleared. Deadlock: they never wait for each other. Session and
  EnrollSession: whole sessions in every schedule; that a disk opened by certain keys is opened
  by the passphrases that derive them, and that an enrolled passphrase unlocks;
  QubesSession: the same for enrolling with three programs.

  BOUNDS. \<open>ask_for_password\<close> and both \<open>pass_enroll\<close> repeat a prompt without bound; their fuel
  is the number of prompts, and \<open>Halt OutOfFuel\<close> is a user who is still being asked. Theorems
  over all runs hold for every fuel; those that a session ends take the number of refused
  entries plus one, which is exactly enough. All other loops have a measure: three attempts on
  the TKey, three tries on the host, 70 polls while loading, one step per frame. The start code is
  a \<open>partial_function\<close>, so that it reaches \<open>main\<close> is proved and not built in.

  PARAMETERS. Not under src/, hence parameters: the cryptographic libraries (record \<open>crypto\<close>;
  \<open>crypto_ok\<close> states lengths and the agreement of X25519), the TPM, tty and cryptsetup (answers
  of the environment), and the TKey's firmware (a program \<open>fw\<close>; \<open>firmware_boots\<close> states that it
  answers the load request and the frames and starts the app).

  NOT MODELLED. Console output. The bytes a failing write may have sent (a failed write sends
  nothing). Drop glue: zeroizing \<open>Zeroizing\<close> buffers and closing handles at the end of a scope.
  The linker script of the app (its symbols are the parameter \<open>lk\<close> of Startup), the forwarding
  \<open>Read\<close>/\<open>Write\<close>/\<open>Deref\<close> of \<open>Tkey\<close>. The shell scripts and the dracut module that build and install the programs.
  Cryptographic strength: the theorems say which values are computed and sent, not that they
  cannot be guessed.
\<close>

end
